theory Spec2Isabelle
  imports Main "HOL-Library.Multiset"
begin

section \<open>Tensors, slices and reshapes\<close>

text \<open>
  The source works on torch tensors of shape (B, C, H, W), (B, C, L) and (B, 4, C, L).
  No operation of the four functions below touches the batch axis, so the model is one
  batch element (B = 1). A tensor is its shape together with nested lists: a grid is a
  list of C channel planes, a plane a list of H rows, a row a list of W values. The shape
  is kept beside the data because torch keeps it too: a block of zero rows still has a
  width, and reshape, view and cat decide from the shape whether they raise.
\<close>

datatype error =
    UnboundLocalError string
  | IndexError
  | ReshapeError
  | ViewError
  | CatError

record 'a grid =
  nC :: nat
  nH :: nat
  nW :: nat
  planes :: "'a list list list"

record 'a seqs =
  sC :: nat
  sL :: nat
  srows :: "'a list list"

text \<open>The tensor of shape (B, 4, C, L): \<open>out1\<close> is x[:, 0], \<open>out2\<close> is x[:, 1], and so on.\<close>

record 'a stack =
  kC :: nat
  kL :: nat
  out1 :: "'a list list"
  out2 :: "'a list list"
  out3 :: "'a list list"
  out4 :: "'a list list"

definition bind :: "error + 'a \<Rightarrow> ('a \<Rightarrow> error + 'b) \<Rightarrow> error + 'b" where
  "bind m f = (case m of Inl e \<Rightarrow> Inl e | Inr v \<Rightarrow> f v)"

text \<open>
  Python slice bounds on an axis of size n: a negative index counts from the end, and
  every index is clamped into [0, n]. An omitted bound is \<open>None\<close>.
\<close>

definition norm_index :: "nat \<Rightarrow> int \<Rightarrow> nat" where
  "norm_index n i = (if i < 0 then nat (max 0 (i + int n)) else min n (nat i))"

definition start_of :: "nat \<Rightarrow> int option \<Rightarrow> nat" where
  "start_of n a = (case a of None \<Rightarrow> 0 | Some i \<Rightarrow> norm_index n i)"

definition stop_of :: "nat \<Rightarrow> int option \<Rightarrow> nat" where
  "stop_of n b = (case b of None \<Rightarrow> n | Some i \<Rightarrow> norm_index n i)"

type_synonym span = "int option \<times> int option"

definition span_len :: "nat \<Rightarrow> span \<Rightarrow> nat" where
  "span_len n s = stop_of n (snd s) - start_of n (fst s)"

definition slice :: "span \<Rightarrow> 'a list \<Rightarrow> 'a list" where
  "slice s xs = take (span_len (length xs) s) (drop (start_of (length xs) (fst s)) xs)"

text \<open>x[:, :, a:b, c:d] on a grid, and x[:, :, a:b] on a sequence tensor.\<close>

definition slice_hw :: "span \<Rightarrow> span \<Rightarrow> 'a grid \<Rightarrow> 'a grid" where
  "slice_hw rs cs x =
     \<lparr>nC = nC x, nH = span_len (nH x) rs, nW = span_len (nW x) cs,
      planes = map (\<lambda>p. map (slice cs) (slice rs p)) (planes x)\<rparr>"

definition slice_l :: "span \<Rightarrow> 'a seqs \<Rightarrow> 'a seqs" where
  "slice_l s x = \<lparr>sC = sC x, sL = span_len (sL x) s, srows = map (slice s) (srows x)\<rparr>"

text \<open>
  block.reshape(B, C, -1) and block.view(B, C, -1): torch infers the last dimension as
  numel / (B * C), and raises when B * C = 0 (the inferred size is then ambiguous).
\<close>

definition reshape_flat :: "'a grid \<Rightarrow> error + 'a seqs" where
  "reshape_flat b =
     (if nC b = 0 then Inl ReshapeError
      else Inr \<lparr>sC = nC b, sL = nH b * nW b, srows = map concat (planes b)\<rparr>)"

text \<open>block.transpose(2, 3): an h x w plane becomes w x h.\<close>

definition tr :: "nat \<Rightarrow> 'a list list \<Rightarrow> 'a list list" where
  "tr w p = map (\<lambda>j. map (\<lambda>r. r ! j) p) [0..<w]"

definition transpose23 :: "'a grid \<Rightarrow> 'a grid" where
  "transpose23 b = \<lparr>nC = nC b, nH = nW b, nW = nH b, planes = map (tr (nW b)) (planes b)\<rparr>"

text \<open>torch.cat(flattened, dim=-1) on tensors of shape (B, C, n): one after the other.\<close>

definition cat2 :: "'a seqs \<Rightarrow> 'a seqs \<Rightarrow> 'a seqs" where
  "cat2 a b = \<lparr>sC = sC a, sL = sL a + sL b, srows = map2 (@) (srows a) (srows b)\<rparr>"

fun cat_last :: "'a seqs list \<Rightarrow> 'a seqs" where
  "cat_last [] = \<lparr>sC = 0, sL = 0, srows = []\<rparr>"
| "cat_last [f] = f"
| "cat_last (f # fs) = cat2 f (cat_last fs)"

text \<open>torch.flip(x, dims=[-1]).\<close>

definition flip :: "'a seqs \<Rightarrow> 'a seqs" where
  "flip x = x\<lparr>srows := map rev (srows x)\<rparr>"

text \<open>Row-major reading of a flat list as h rows of w values.\<close>

fun chunk :: "nat \<Rightarrow> nat \<Rightarrow> 'a list \<Rightarrow> 'a list list" where
  "chunk 0 w xs = []"
| "chunk (Suc h) w xs = take w xs # chunk h w (drop w xs)"

text \<open>
  torch.stack([output1, output2, output3, output4], dim=1).view(B, 4, -1, L). The stacked
  tensor has 4 * C * n elements for outputs of shape (B, C, n); the view raises when
  L = 0 or when 4 * L does not divide that number, and otherwise reads each direction's
  C * n values as rows of length L.
\<close>

definition stack_view :: "nat \<Rightarrow> 'a seqs \<Rightarrow> 'a seqs \<Rightarrow> 'a seqs \<Rightarrow> 'a seqs \<Rightarrow> error + 'a stack" where
  "stack_view L o1 o2 o3 o4 =
     (let numel = sC o1 * sL o1 in
      if L = 0 \<or> numel mod L \<noteq> 0 then Inl ViewError
      else Inr \<lparr>kC = numel div L, kL = L,
                out1 = chunk (numel div L) L (concat (srows o1)),
                out2 = chunk (numel div L) L (concat (srows o2)),
                out3 = chunk (numel div L) L (concat (srows o3)),
                out4 = chunk (numel div L) L (concat (srows o4))\<rparr>)"

section \<open>rearrange_center_blocks\<close>

datatype region =
  TopLeft | Top | TopRight | Left | Center | Right | BottomLeft | Bottom | BottomRight

definition var_name :: "region \<Rightarrow> string" where
  "var_name r = (case r of
      TopLeft \<Rightarrow> ''top_left'' | Top \<Rightarrow> ''top'' | TopRight \<Rightarrow> ''top_right''
    | Left \<Rightarrow> ''left'' | Center \<Rightarrow> ''center_block'' | Right \<Rightarrow> ''right''
    | BottomLeft \<Rightarrow> ''bottom_left'' | Bottom \<Rightarrow> ''bottom'' | BottomRight \<Rightarrow> ''bottom_right'')"

definition h_center :: "nat \<Rightarrow> int \<Rightarrow> int" where
  "h_center H kern = (int H - kern) div 2"

definition w_center :: "nat \<Rightarrow> int \<Rightarrow> int" where
  "w_center W kern = (int W - kern) div 2"

text \<open>The condition of the \<open>if\<close> in front of each block (the centre block has none).\<close>

definition guard :: "nat \<Rightarrow> nat \<Rightarrow> int \<Rightarrow> region \<Rightarrow> bool" where
  "guard H W kern r =
     (let hc = h_center H kern; wc = w_center W kern in
      case r of
        TopLeft \<Rightarrow> hc > 0 \<and> wc > 0
      | Top \<Rightarrow> hc > 0
      | TopRight \<Rightarrow> hc > 0 \<and> (int W - (wc + kern)) > 0
      | Left \<Rightarrow> wc > 0
      | Center \<Rightarrow> True
      | Right \<Rightarrow> (int W - (wc + kern)) > 0
      | BottomLeft \<Rightarrow> (int H - (hc + kern)) > 0 \<and> wc > 0
      | Bottom \<Rightarrow> (int H - (hc + kern)) > 0
      | BottomRight \<Rightarrow> (int H - (hc + kern)) > 0 \<and> (int W - (wc + kern)) > 0)"

text \<open>The two slices that cut each block out of x.\<close>

definition row_span :: "nat \<Rightarrow> int \<Rightarrow> region \<Rightarrow> span" where
  "row_span H kern r =
     (let hc = h_center H kern in
      if r \<in> {TopLeft, Top, TopRight} then (None, Some hc)
      else if r \<in> {Left, Center, Right} then (Some hc, Some (hc + kern))
      else (Some (hc + kern), None))"

definition col_span :: "nat \<Rightarrow> int \<Rightarrow> region \<Rightarrow> span" where
  "col_span W kern r =
     (let wc = w_center W kern in
      if r \<in> {TopLeft, Left, BottomLeft} then (None, Some wc)
      else if r \<in> {Top, Center, Bottom} then (Some wc, Some (wc + kern))
      else (Some (wc + kern), None))"

definition block :: "'a grid \<Rightarrow> int \<Rightarrow> region \<Rightarrow> 'a grid" where
  "block x kern r = slice_hw (row_span (nH x) kern r) (col_span (nW x) kern r) x"

definition lr_order :: "region list" where
  "lr_order = [TopLeft, Top, TopRight, Left, Center, Right, BottomLeft, Bottom, BottomRight]"

definition ud_order :: "region list" where
  "ud_order = [TopLeft, Left, BottomLeft, Top, Center, Bottom, TopRight, Right, BottomRight]"

text \<open>blocks_lr holds the blocks whose guard held, in the order of the source.\<close>

definition blocks_lr :: "nat \<Rightarrow> nat \<Rightarrow> int \<Rightarrow> region list" where
  "blocks_lr H W kern = filter (guard H W kern) lr_order"

text \<open>
  blocks_ud is filled by nine unguarded appends. A block variable is bound only when its
  guard held, so the first append of an unbound one raises UnboundLocalError.
\<close>

definition blocks_ud :: "nat \<Rightarrow> nat \<Rightarrow> int \<Rightarrow> error + region list" where
  "blocks_ud H W kern =
     (case find (\<lambda>r. \<not> guard H W kern r) ud_order of
        Some r \<Rightarrow> Inl (UnboundLocalError (var_name r))
      | None \<Rightarrow> Inr ud_order)"

text \<open>for block in blocks_lr: flattened.append(block.reshape(B, C, -1))\<close>

fun flatten_loop :: "'a grid list \<Rightarrow> error + 'a seqs list" where
  "flatten_loop [] = Inr []"
| "flatten_loop (b # bs) =
     bind (reshape_flat b) (\<lambda>f. bind (flatten_loop bs) (\<lambda>fs. Inr (f # fs)))"

text \<open>
  for i, block in enumerate(blocks_ud):
      flattened[i] = block.transpose(2, 3).contiguous().view(B, C, -1)
  The right-hand side is evaluated first; the assignment raises IndexError past the end
  of the list.
\<close>

fun transpose_loop :: "nat \<Rightarrow> 'a grid list \<Rightarrow> 'a seqs list \<Rightarrow> error + 'a seqs list" where
  "transpose_loop i [] flattened = Inr flattened"
| "transpose_loop i (b # bs) flattened =
     bind (reshape_flat (transpose23 b)) (\<lambda>f.
       if i < length flattened then transpose_loop (Suc i) bs (flattened[i := f])
       else Inl IndexError)"

definition rearrange_center_blocks :: "'a grid \<Rightarrow> int \<Rightarrow> error + 'a stack" where
  "rearrange_center_blocks x kern =
     (let H = nH x; W = nW x; L = H * W in
      bind (blocks_ud H W kern) (\<lambda>bud.
      bind (flatten_loop (map (block x kern) (blocks_lr H W kern))) (\<lambda>flattened.
      let output1 = cat_last flattened in
      bind (transpose_loop 0 (map (block x kern) bud) flattened) (\<lambda>flattened'.
      let output2 = cat_last flattened';
          output3 = flip output1;
          output4 = flip output2
      in stack_view L output1 output2 output3 output4))))"

section \<open>recover_window_lr, recover_window_ud, recover_center_blocks\<close>

text \<open>
  x.reshape(B, C, h, w) on a tensor of shape (B, C, n). A dimension -1 is inferred by
  torch; two of them, or a dimension below -1, raise. Otherwise the reshape raises unless
  the numbers of elements agree.
\<close>

definition reshape_hw :: "int \<Rightarrow> int \<Rightarrow> 'a seqs \<Rightarrow> error + 'a grid" where
  "reshape_hw h w s =
     (let numel = sC s * sL s in
      if h < - 1 \<or> w < - 1 \<or> (h = - 1 \<and> w = - 1) then Inl ReshapeError
      else if h = - 1 then
        (let newsize = sC s * nat w in
         if newsize > 0 \<and> numel mod newsize = 0
         then Inr \<lparr>nC = sC s, nH = numel div newsize, nW = nat w,
                   planes = map (chunk (numel div newsize) (nat w)) (srows s)\<rparr>
         else Inl ReshapeError)
      else if w = - 1 then
        (let newsize = sC s * nat h in
         if newsize > 0 \<and> numel mod newsize = 0
         then Inr \<lparr>nC = sC s, nH = nat h, nW = numel div newsize,
                   planes = map (chunk (nat h) (numel div newsize)) (srows s)\<rparr>
         else Inl ReshapeError)
      else if numel = sC s * (nat h * nat w)
        then Inr \<lparr>nC = sC s, nH = nat h, nW = nat w,
                  planes = map (chunk (nat h) (nat w)) (srows s)\<rparr>
        else Inl ReshapeError)"

text \<open>
  torch.cat((a, b, c), dim=3) puts the three blocks side by side and torch.cat((a, b, c),
  dim=2) on top of each other; the sizes of the other axes have to agree.
\<close>

definition cat_w :: "'a grid \<Rightarrow> 'a grid \<Rightarrow> 'a grid \<Rightarrow> error + 'a grid" where
  "cat_w a b c =
     (if nC a = nC b \<and> nC b = nC c \<and> nH a = nH b \<and> nH b = nH c
      then Inr \<lparr>nC = nC a, nH = nH a, nW = nW a + nW b + nW c,
                planes = map (\<lambda>(p, q, r). map (\<lambda>(u, v, w). u @ v @ w) (zip p (zip q r)))
                             (zip (planes a) (zip (planes b) (planes c)))\<rparr>
      else Inl CatError)"

definition cat_h :: "'a grid \<Rightarrow> 'a grid \<Rightarrow> 'a grid \<Rightarrow> error + 'a grid" where
  "cat_h a b c =
     (if nC a = nC b \<and> nC b = nC c \<and> nW a = nW b \<and> nW b = nW c
      then Inr \<lparr>nC = nC a, nH = nH a + nH b + nH c, nW = nW a,
                planes = map (\<lambda>(p, q, r). p @ q @ r)
                             (zip (planes a) (zip (planes b) (planes c)))\<rparr>
      else Inl CatError)"

text \<open>The four torch.cat calls that end both recover_window functions.\<close>

definition assemble ::
  "'a grid \<Rightarrow> 'a grid \<Rightarrow> 'a grid \<Rightarrow> 'a grid \<Rightarrow> 'a grid \<Rightarrow> 'a grid \<Rightarrow> 'a grid \<Rightarrow> 'a grid \<Rightarrow> 'a grid
     \<Rightarrow> error + 'a grid" where
  "assemble top_left top' top_right left center_block right bottom_left bottom bottom_right =
     bind (cat_w top_left top' top_right) (\<lambda>top_band.
     bind (cat_w left center_block right) (\<lambda>medium.
     bind (cat_w bottom_left bottom bottom_right) (\<lambda>down.
     cat_h top_band medium down)))"

text \<open>
  The test \<open>kernel / 2 == kernel // 2\<close> compares the float quotient with the floor
  quotient: it holds exactly for an even kernel. The names small_l1, medium_l1 and l4 of
  the source are never used and are left out.
\<close>

definition recover_window_lr :: "'a seqs \<Rightarrow> int \<Rightarrow> error + 'a grid" where
  "recover_window_lr x kern =
     (let short = kern div 2; short1 = kern div 2 + 1;
          small_l = short * short; medium_l = short * short * 2; high_l = short * short * 4;
          l1 = short * short; l2 = short * short1; l3 = short * kern;
          l5 = short1 * kern; l6 = kern * kern
      in
      if kern mod 2 = 0 then
        bind (reshape_hw short short
               (slice_l (None, Some small_l) x)) (\<lambda>top_left.
        bind (reshape_hw short (short * 2)
               (slice_l (Some small_l, Some (small_l + medium_l)) x)) (\<lambda>top'.
        bind (reshape_hw short short
               (slice_l (Some (small_l + medium_l), Some (2 * small_l + medium_l)) x)) (\<lambda>top_right.
        bind (reshape_hw (short * 2) short
               (slice_l (Some (2 * small_l + medium_l), Some (2 * small_l + 2 * medium_l)) x)) (\<lambda>left.
        bind (reshape_hw (short * 2) (short * 2)
               (slice_l (Some (2 * small_l + 2 * medium_l),
                         Some (2 * small_l + 2 * medium_l + high_l)) x)) (\<lambda>center_block.
        bind (reshape_hw (short * 2) short
               (slice_l (Some (2 * small_l + 2 * medium_l + high_l),
                         Some (2 * small_l + 3 * medium_l + high_l)) x)) (\<lambda>right.
        bind (reshape_hw short short
               (slice_l (Some (2 * small_l + 3 * medium_l + high_l),
                         Some (3 * small_l + 3 * medium_l + high_l)) x)) (\<lambda>bottom_left.
        bind (reshape_hw short (short * 2)
               (slice_l (Some (3 * small_l + 3 * medium_l + high_l),
                         Some (3 * small_l + 4 * medium_l + high_l)) x)) (\<lambda>bottom.
        bind (reshape_hw short short
               (slice_l (Some (3 * small_l + 4 * medium_l + high_l), None) x)) (\<lambda>bottom_right.
        assemble top_left top' top_right left center_block right
                 bottom_left bottom bottom_right)))))))))
      else
        bind (reshape_hw short short
               (slice_l (None, Some l1) x)) (\<lambda>top_left.
        bind (reshape_hw short kern
               (slice_l (Some l1, Some (l1 + l3)) x)) (\<lambda>top'.
        bind (reshape_hw short short1
               (slice_l (Some (l1 + l3), Some (l1 + l2 + l3)) x)) (\<lambda>top_right.
        bind (reshape_hw kern short
               (slice_l (Some (l1 + l2 + l3), Some (l1 + l2 + 2 * l3)) x)) (\<lambda>left.
        bind (reshape_hw kern kern
               (slice_l (Some (l1 + l2 + 2 * l3), Some (l1 + l2 + 2 * l3 + l6)) x)) (\<lambda>center_block.
        bind (reshape_hw kern short1
               (slice_l (Some (l1 + l2 + 2 * l3 + l6),
                         Some (l1 + l2 + 2 * l3 + l5 + l6)) x)) (\<lambda>right.
        bind (reshape_hw short1 short
               (slice_l (Some (l1 + l2 + 2 * l3 + l5 + l6),
                         Some (l1 + 2 * l2 + 2 * l3 + l5 + l6)) x)) (\<lambda>bottom_left.
        bind (reshape_hw short1 kern
               (slice_l (Some (l1 + 2 * l2 + 2 * l3 + l5 + l6),
                         Some (l1 + 2 * l2 + 2 * l3 + 2 * l5 + l6)) x)) (\<lambda>bottom.
        bind (reshape_hw short1 short1
               (slice_l (Some (l1 + 2 * l2 + 2 * l3 + 2 * l5 + l6), None) x)) (\<lambda>bottom_right.
        assemble top_left top' top_right left center_block right
                 bottom_left bottom bottom_right))))))))))"

definition recover_window_ud :: "'a seqs \<Rightarrow> int \<Rightarrow> error + 'a grid" where
  "recover_window_ud x kern =
     (let short = kern div 2; short1 = kern div 2 + 1;
          small_l = short * short; medium_l = short * short * 2; high_l = short * short * 4;
          l1 = short * short; l2 = short * short1; l3 = short * kern;
          l5 = short1 * kern; l6 = kern * kern
      in
      if kern mod 2 = 0 then
        bind (reshape_hw short short
               (slice_l (None, Some small_l) x)) (\<lambda>top_left.
        bind (reshape_hw (short * 2) short
               (slice_l (Some small_l, Some (small_l + medium_l)) x)) (\<lambda>left.
        bind (reshape_hw short short
               (slice_l (Some (small_l + medium_l), Some (2 * small_l + medium_l)) x)) (\<lambda>bottom_left.
        bind (reshape_hw short (short * 2)
               (slice_l (Some (2 * small_l + medium_l), Some (2 * small_l + 2 * medium_l)) x)) (\<lambda>top'.
        bind (reshape_hw (short * 2) (short * 2)
               (slice_l (Some (2 * small_l + 2 * medium_l),
                         Some (2 * small_l + 2 * medium_l + high_l)) x)) (\<lambda>center_block.
        bind (reshape_hw short (short * 2)
               (slice_l (Some (2 * small_l + 2 * medium_l + high_l),
                         Some (2 * small_l + 3 * medium_l + high_l)) x)) (\<lambda>bottom.
        bind (reshape_hw short short
               (slice_l (Some (2 * small_l + 3 * medium_l + high_l),
                         Some (3 * small_l + 3 * medium_l + high_l)) x)) (\<lambda>top_right.
        bind (reshape_hw (short * 2) short
               (slice_l (Some (3 * small_l + 3 * medium_l + high_l),
                         Some (3 * small_l + 4 * medium_l + high_l)) x)) (\<lambda>right.
        bind (reshape_hw short short
               (slice_l (Some (3 * small_l + 4 * medium_l + high_l), None) x)) (\<lambda>bottom_right.
        assemble top_left top' top_right left center_block right
                 bottom_left bottom bottom_right)))))))))
      else
        bind (reshape_hw short short
               (slice_l (None, Some l1) x)) (\<lambda>top_left.
        bind (reshape_hw kern short
               (slice_l (Some l1, Some (l1 + l3)) x)) (\<lambda>left.
        bind (reshape_hw short1 short
               (slice_l (Some (l1 + l3), Some (l1 + l2 + l3)) x)) (\<lambda>bottom_left.
        bind (reshape_hw short kern
               (slice_l (Some (l1 + l2 + l3), Some (l1 + l2 + 2 * l3)) x)) (\<lambda>top'.
        bind (reshape_hw kern kern
               (slice_l (Some (l1 + l2 + 2 * l3), Some (l1 + l2 + 2 * l3 + l6)) x)) (\<lambda>center_block.
        bind (reshape_hw short1 kern
               (slice_l (Some (l1 + l2 + 2 * l3 + l6),
                         Some (l1 + l2 + 2 * l3 + l5 + l6)) x)) (\<lambda>bottom.
        bind (reshape_hw short short1
               (slice_l (Some (l1 + l2 + 2 * l3 + l5 + l6),
                         Some (l1 + 2 * l2 + 2 * l3 + l5 + l6)) x)) (\<lambda>top_right.
        bind (reshape_hw kern short1
               (slice_l (Some (l1 + 2 * l2 + 2 * l3 + l5 + l6),
                         Some (l1 + 2 * l2 + 2 * l3 + 2 * l5 + l6)) x)) (\<lambda>right.
        bind (reshape_hw short1 short1
               (slice_l (Some (l1 + 2 * l2 + 2 * l3 + 2 * l5 + l6), None) x)) (\<lambda>bottom_right.
        assemble top_left top' top_right left center_block right
                 bottom_left bottom bottom_right))))))))))"

text \<open>
  x[:, i, :, :].reshape(B, -1, L) on a tensor of shape (B, C, L): the channel count is
  inferred as C, and torch raises when L = 0.
\<close>

definition reshape_l :: "nat \<Rightarrow> 'a seqs \<Rightarrow> error + 'a seqs" where
  "reshape_l L s = (if L = 0 then Inl ReshapeError else Inr s)"

text \<open>Elementwise + on two tensors of the same shape.\<close>

definition add_seqs :: "'a::plus seqs \<Rightarrow> 'a seqs \<Rightarrow> 'a seqs" where
  "add_seqs a b = \<lparr>sC = sC a, sL = sL a, srows = map2 (map2 (+)) (srows a) (srows b)\<rparr>"

definition add_grid :: "'a::plus grid \<Rightarrow> 'a grid \<Rightarrow> 'a grid" where
  "add_grid a b =
     \<lparr>nC = nC a, nH = nH a, nW = nW a,
      planes = map2 (map2 (map2 (+))) (planes a) (planes b)\<rparr>"

text \<open>
  The line \<open>H = W = int(math.sqrt(L))\<close> binds two names that are never read; it is left
  out.
\<close>

definition recover_center_blocks :: "'a::plus stack \<Rightarrow> int \<Rightarrow> error + 'a grid" where
  "recover_center_blocks x kern =
     (let C = kC x; L = kL x in
      bind (reshape_l L \<lparr>sC = C, sL = L, srows = out1 x\<rparr>) (\<lambda>lr_y.
      bind (reshape_l L \<lparr>sC = C, sL = L, srows = out2 x\<rparr>) (\<lambda>ud_y.
      bind (reshape_l L (flip \<lparr>sC = C, sL = L, srows = out3 x\<rparr>)) (\<lambda>rl_y.
      bind (reshape_l L (flip \<lparr>sC = C, sL = L, srows = out4 x\<rparr>)) (\<lambda>du_y.
      let y1 = add_seqs lr_y rl_y in
      bind (recover_window_lr y1 kern) (\<lambda>y1.
      let y2 = add_seqs ud_y du_y in
      bind (recover_window_ud y2 kern) (\<lambda>y2.
      Inr (add_grid y1 y2))))))))"

section \<open>What the recoverers do to one channel\<close>

text \<open>
  The definitions of this section are not functions of the source. They name what the
  reshapes and cats of the two recover_window functions compute on one channel row, so
  that the lemmas below can state it.
\<close>

definition band3 :: "'a list list \<Rightarrow> 'a list list \<Rightarrow> 'a list list \<Rightarrow> 'a list list" where
  "band3 a b c = map (\<lambda>(u, v, w). u @ v @ w) (zip a (zip b c))"

text \<open>
  What the nine reshapes and four cats of recover_window_lr do to one channel row r,
  for bands of heights ht, hm, hb and widths wl, wm, wr.
\<close>

definition asm_lr :: "nat \<Rightarrow> nat \<Rightarrow> nat \<Rightarrow> nat \<Rightarrow> nat \<Rightarrow> nat \<Rightarrow> 'a list \<Rightarrow> 'a list list" where
  "asm_lr ht hm hb wl wm wr r =
     (let W = wl + wm + wr in
        band3 (chunk ht wl r)
              (chunk ht wm (drop (ht * wl) r))
              (chunk ht wr (drop (ht * wl + ht * wm) r))
      @ band3 (chunk hm wl (drop (ht * W) r))
              (chunk hm wm (drop (ht * W + hm * wl) r))
              (chunk hm wr (drop (ht * W + hm * wl + hm * wm) r))
      @ band3 (chunk hb wl (drop (ht * W + hm * W) r))
              (chunk hb wm (drop (ht * W + hm * W + hb * wl) r))
              (chunk hb wr (drop (ht * W + hm * W + hb * wl + hb * wm) r)))"

definition asm_ud :: "nat \<Rightarrow> nat \<Rightarrow> nat \<Rightarrow> nat \<Rightarrow> nat \<Rightarrow> nat \<Rightarrow> 'a list \<Rightarrow> 'a list list" where
  "asm_ud ht hm hb wl wm wr r =
     (let H = ht + hm + hb in
        band3 (chunk ht wl r)
              (chunk ht wm (drop (H * wl) r))
              (chunk ht wr (drop (H * wl + H * wm) r))
      @ band3 (chunk hm wl (drop (ht * wl) r))
              (chunk hm wm (drop (H * wl + ht * wm) r))
              (chunk hm wr (drop (H * wl + H * wm + ht * wr) r))
      @ band3 (chunk hb wl (drop (ht * wl + hm * wl) r))
              (chunk hb wm (drop (H * wl + ht * wm + hm * wm) r))
              (chunk hb wr (drop (H * wl + H * wm + ht * wr + hm * wr) r)))"

definition rec_lr_plane :: "nat \<Rightarrow> 'a list \<Rightarrow> 'a list list" where
  "rec_lr_plane k = asm_lr (k div 2) k (k - k div 2) (k div 2) k (k - k div 2)"

definition rec_ud_plane :: "nat \<Rightarrow> 'a list \<Rightarrow> 'a list list" where
  "rec_ud_plane k = asm_ud (k div 2) k (k - k div 2) (k div 2) k (k - k div 2)"

text \<open>
  A grid is well formed when its data has the shape it carries: C planes of H rows of
  W values.
\<close>

definition wf_plane :: "nat \<Rightarrow> nat \<Rightarrow> 'a list list \<Rightarrow> bool" where
  "wf_plane H W p \<longleftrightarrow> length p = H \<and> list_all (\<lambda>r. length r = W) p"

definition wf_grid :: "'a grid \<Rightarrow> bool" where
  "wf_grid x \<longleftrightarrow> length (planes x) = nC x \<and> list_all (wf_plane (nH x) (nW x)) (planes x)"

text \<open>What rearrange_center_blocks does to one channel plane.\<close>

definition plane_block :: "nat \<Rightarrow> nat \<Rightarrow> int \<Rightarrow> region \<Rightarrow> 'a list list \<Rightarrow> 'a list list" where
  "plane_block H W kern r p = map (slice (col_span W kern r)) (slice (row_span H kern r) p)"

definition flat_lr_plane :: "nat \<Rightarrow> nat \<Rightarrow> int \<Rightarrow> 'a list list \<Rightarrow> 'a list" where
  "flat_lr_plane H W kern p = concat (map (\<lambda>r. concat (plane_block H W kern r p)) lr_order)"

definition flat_ud_plane :: "nat \<Rightarrow> nat \<Rightarrow> int \<Rightarrow> 'a list list \<Rightarrow> 'a list" where
  "flat_ud_plane H W kern p =
     concat (map (\<lambda>r. concat (tr (span_len W (col_span W kern r)) (plane_block H W kern r p)))
                 ud_order)"

text \<open>The same with the three row bands and the three column bands cut by take and drop.\<close>

definition cut3 :: "nat \<Rightarrow> nat \<Rightarrow> nat \<Rightarrow> 'a list \<Rightarrow> 'a list" where
  "cut3 a k i xs = (if i = 0 then take a xs else if i = 1 then take k (drop a xs) else drop (a + k) xs)"

definition blk :: "nat \<Rightarrow> nat \<Rightarrow> nat \<Rightarrow> nat \<Rightarrow> nat \<Rightarrow> 'a list list \<Rightarrow> 'a list list" where
  "blk a c k i j p = map (cut3 c k j) (cut3 a k i p)"

definition row_band :: "region \<Rightarrow> nat" where
  "row_band r = (if r \<in> {TopLeft, Top, TopRight} then 0 else if r \<in> {Left, Center, Right} then 1 else 2)"

definition col_band :: "region \<Rightarrow> nat" where
  "col_band r = (if r \<in> {TopLeft, Left, BottomLeft} then 0 else if r \<in> {Top, Center, Bottom} then 1 else 2)"

text \<open>The size of band i of an axis of size n cut at a and a + k.\<close>

definition band_size :: "nat \<Rightarrow> nat \<Rightarrow> nat \<Rightarrow> nat \<Rightarrow> nat" where
  "band_size n a k i = (if i = 0 then a else if i = 1 then k else n - (a + k))"

text \<open>reshape_flat when it succeeds.\<close>

definition flat_of :: "'a grid \<Rightarrow> 'a seqs" where
  "flat_of b = \<lparr>sC = nC b, sL = nH b * nW b, srows = map concat (planes b)\<rparr>"

text \<open>
  The order in which the LR and the UD sequence read the cells: the flattening of the
  plane that holds at (i, j) the pair (i, j).
\<close>

definition index_plane :: "nat \<Rightarrow> nat \<Rightarrow> (nat \<times> nat) list list" where
  "index_plane H W = map (\<lambda>i. map (\<lambda>j. (i, j)) [0..<W]) [0..<H]"

definition cells_lr :: "nat \<Rightarrow> nat \<Rightarrow> int \<Rightarrow> (nat \<times> nat) list" where
  "cells_lr H W kern = flat_lr_plane H W kern (index_plane H W)"

definition cells_ud :: "nat \<Rightarrow> nat \<Rightarrow> int \<Rightarrow> (nat \<times> nat) list" where
  "cells_ud H W kern = flat_ud_plane H W kern (index_plane H W)"

definition read_cells :: "'a list list \<Rightarrow> (nat \<times> nat) list \<Rightarrow> 'a list" where
  "read_cells p cs = map (\<lambda>(i, j). p ! i ! j) cs"

text \<open>
  The cells of a region: what its two slices cut out of the plane that holds at (i, j)
  the pair (i, j).
\<close>

definition region_cells :: "nat \<Rightarrow> nat \<Rightarrow> int \<Rightarrow> region \<Rightarrow> (nat \<times> nat) set" where
  "region_cells H W kern r = set (concat (plane_block H W kern r (index_plane H W)))"

text \<open>The precondition of the specification: 1 <= kernel <= min(H, W).\<close>

definition valid_kernel :: "nat \<Rightarrow> nat \<Rightarrow> int \<Rightarrow> bool" where
  "valid_kernel H W kern \<longleftrightarrow> 1 \<le> kern \<and> kern \<le> int (min H W)"

text \<open>
  A tensor of shape (B, 4, C, L) is well formed when each of its four slices has C rows
  of length L.
\<close>

definition wf_stack :: "'a stack \<Rightarrow> bool" where
  "wf_stack x \<longleftrightarrow>
     list_all (\<lambda>out. length out = kC x \<and> list_all (\<lambda>r. length r = kL x) out)
              [out1 x, out2 x, out3 x, out4 x]"

text \<open>
  The nine slices x[:, :, a:b] of the two recover_window functions, as the source writes
  their bounds: the bounds are the same in recover_window_lr and recover_window_ud, in
  both branches of the test on the parity of the kernel.
\<close>

definition segments :: "int \<Rightarrow> span list" where
  "segments kern =
     (let short = kern div 2; short1 = kern div 2 + 1;
          small_l = short * short; medium_l = short * short * 2; high_l = short * short * 4;
          l1 = short * short; l2 = short * short1; l3 = short * kern;
          l5 = short1 * kern; l6 = kern * kern
      in
      if kern mod 2 = 0 then
        [(None, Some small_l),
         (Some small_l, Some (small_l + medium_l)),
         (Some (small_l + medium_l), Some (2 * small_l + medium_l)),
         (Some (2 * small_l + medium_l), Some (2 * small_l + 2 * medium_l)),
         (Some (2 * small_l + 2 * medium_l), Some (2 * small_l + 2 * medium_l + high_l)),
         (Some (2 * small_l + 2 * medium_l + high_l), Some (2 * small_l + 3 * medium_l + high_l)),
         (Some (2 * small_l + 3 * medium_l + high_l), Some (3 * small_l + 3 * medium_l + high_l)),
         (Some (3 * small_l + 3 * medium_l + high_l), Some (3 * small_l + 4 * medium_l + high_l)),
         (Some (3 * small_l + 4 * medium_l + high_l), None)]
      else
        [(None, Some l1),
         (Some l1, Some (l1 + l3)),
         (Some (l1 + l3), Some (l1 + l2 + l3)),
         (Some (l1 + l2 + l3), Some (l1 + l2 + 2 * l3)),
         (Some (l1 + l2 + 2 * l3), Some (l1 + l2 + 2 * l3 + l6)),
         (Some (l1 + l2 + 2 * l3 + l6), Some (l1 + l2 + 2 * l3 + l5 + l6)),
         (Some (l1 + l2 + 2 * l3 + l5 + l6), Some (l1 + 2 * l2 + 2 * l3 + l5 + l6)),
         (Some (l1 + 2 * l2 + 2 * l3 + l5 + l6), Some (l1 + 2 * l2 + 2 * l3 + 2 * l5 + l6)),
         (Some (l1 + 2 * l2 + 2 * l3 + 2 * l5 + l6), None)])"

text \<open>
  The (height, width) each slice is reshaped to, in the order of the slices: top_left,
  top, top_right, left, center_block, right, bottom_left, bottom, bottom_right in
  recover_window_lr; top_left, left, bottom_left, top, center_block, bottom, top_right,
  right, bottom_right in recover_window_ud.
\<close>

definition shapes_lr :: "int \<Rightarrow> (int \<times> int) list" where
  "shapes_lr kern =
     (let short = kern div 2; short1 = kern div 2 + 1 in
      if kern mod 2 = 0 then
        [(short, short), (short, short * 2), (short, short),
         (short * 2, short), (short * 2, short * 2), (short * 2, short),
         (short, short), (short, short * 2), (short, short)]
      else
        [(short, short), (short, kern), (short, short1),
         (kern, short), (kern, kern), (kern, short1),
         (short1, short), (short1, kern), (short1, short1)])"

definition shapes_ud :: "int \<Rightarrow> (int \<times> int) list" where
  "shapes_ud kern =
     (let short = kern div 2; short1 = kern div 2 + 1 in
      if kern mod 2 = 0 then
        [(short, short), (short * 2, short), (short, short),
         (short, short * 2), (short * 2, short * 2), (short, short * 2),
         (short, short), (short * 2, short), (short, short)]
      else
        [(short, short), (kern, short), (short1, short),
         (short, kern), (kern, kern), (short1, kern),
         (short, short1), (kern, short1), (short1, short1)])"

text \<open>The nine reshapes and the four cats, for given slices and shapes.\<close>

definition window_chain_lr :: "(int \<times> int) list \<Rightarrow> span list \<Rightarrow> 'a seqs \<Rightarrow> error + 'a grid" where
  "window_chain_lr sh sg x =
     bind (reshape_hw (fst (sh ! 0)) (snd (sh ! 0)) (slice_l (sg ! 0) x)) (\<lambda>top_left.
     bind (reshape_hw (fst (sh ! 1)) (snd (sh ! 1)) (slice_l (sg ! 1) x)) (\<lambda>top'.
     bind (reshape_hw (fst (sh ! 2)) (snd (sh ! 2)) (slice_l (sg ! 2) x)) (\<lambda>top_right.
     bind (reshape_hw (fst (sh ! 3)) (snd (sh ! 3)) (slice_l (sg ! 3) x)) (\<lambda>left.
     bind (reshape_hw (fst (sh ! 4)) (snd (sh ! 4)) (slice_l (sg ! 4) x)) (\<lambda>center_block.
     bind (reshape_hw (fst (sh ! 5)) (snd (sh ! 5)) (slice_l (sg ! 5) x)) (\<lambda>right.
     bind (reshape_hw (fst (sh ! 6)) (snd (sh ! 6)) (slice_l (sg ! 6) x)) (\<lambda>bottom_left.
     bind (reshape_hw (fst (sh ! 7)) (snd (sh ! 7)) (slice_l (sg ! 7) x)) (\<lambda>bottom.
     bind (reshape_hw (fst (sh ! 8)) (snd (sh ! 8)) (slice_l (sg ! 8) x)) (\<lambda>bottom_right.
     assemble top_left top' top_right left center_block right
              bottom_left bottom bottom_right)))))))))"

definition window_chain_ud :: "(int \<times> int) list \<Rightarrow> span list \<Rightarrow> 'a seqs \<Rightarrow> error + 'a grid" where
  "window_chain_ud sh sg x =
     bind (reshape_hw (fst (sh ! 0)) (snd (sh ! 0)) (slice_l (sg ! 0) x)) (\<lambda>top_left.
     bind (reshape_hw (fst (sh ! 1)) (snd (sh ! 1)) (slice_l (sg ! 1) x)) (\<lambda>left.
     bind (reshape_hw (fst (sh ! 2)) (snd (sh ! 2)) (slice_l (sg ! 2) x)) (\<lambda>bottom_left.
     bind (reshape_hw (fst (sh ! 3)) (snd (sh ! 3)) (slice_l (sg ! 3) x)) (\<lambda>top'.
     bind (reshape_hw (fst (sh ! 4)) (snd (sh ! 4)) (slice_l (sg ! 4) x)) (\<lambda>center_block.
     bind (reshape_hw (fst (sh ! 5)) (snd (sh ! 5)) (slice_l (sg ! 5) x)) (\<lambda>bottom.
     bind (reshape_hw (fst (sh ! 6)) (snd (sh ! 6)) (slice_l (sg ! 6) x)) (\<lambda>top_right.
     bind (reshape_hw (fst (sh ! 7)) (snd (sh ! 7)) (slice_l (sg ! 7) x)) (\<lambda>right.
     bind (reshape_hw (fst (sh ! 8)) (snd (sh ! 8)) (slice_l (sg ! 8) x)) (\<lambda>bottom_right.
     assemble top_left top' top_right left center_block right
              bottom_left bottom bottom_right)))))))))"

section \<open>C_SS2D: forward_core and forward\<close>

text \<open>
  The two methods of C_SS2D, as far as the blocks are concerned. forward_core reads H off
  the tensor x of shape (B, C, H, W) and calls rearrange_center_blocks(x, H // 2). What
  follows (the projections and selective_scan_fn of mamba_ssm, whose result is viewed as
  (B, 4, -1, L)) is not code of this source: it is the parameter \<open>selective_scan\<close>. forward
  sets kernel = H // 2 and passes the result of forward_core to recover_center_blocks with
  that kernel. The grid x is the tensor handed to forward_core; the convolution in front of
  it (kernel size d_conv = 3, padding (d_conv - 1) // 2) keeps H and W.
\<close>

definition forward_core :: "('a stack \<Rightarrow> 'b stack) \<Rightarrow> 'a grid \<Rightarrow> error + 'b stack" where
  "forward_core selective_scan x =
     (let H = nH x in
      bind (rearrange_center_blocks x (int H div 2)) (\<lambda>xs.
      Inr (selective_scan xs)))"

definition forward :: "('a stack \<Rightarrow> 'b::plus stack) \<Rightarrow> 'a grid \<Rightarrow> error + 'b grid" where
  "forward selective_scan x =
     (let H = nH x; kern = int H div 2 in
      bind (forward_core selective_scan x) (\<lambda>out.
      recover_center_blocks out kern))"

section \<open>Lemmas: binds, slices and chunks\<close>

lemma bind_Inr [simp]: "bind (Inr v) f = f v" by (simp add: bind_def)
lemma bind_Inl [simp]: "bind (Inl e) f = Inl e" by (simp add: bind_def)
lemma bind_eq_Inr: "bind m f = Inr y \<longleftrightarrow> (\<exists>v. m = Inr v \<and> f v = Inr y)"
  by (cases m) simp_all

lemma norm_index_nonneg: "0 \<le> i \<Longrightarrow> norm_index n i = min n (nat i)"
  by (simp add: norm_index_def)

lemma slice_Some_Some:
  "0 \<le> a \<Longrightarrow> 0 \<le> b \<Longrightarrow> slice (Some a, Some b) xs = take (nat b - nat a) (drop (nat a) xs)"
  by (cases "nat a \<le> length xs")
     (auto simp add: slice_def span_len_def start_of_def stop_of_def norm_index_nonneg min_def)

lemma slice_None_Some: "0 \<le> b \<Longrightarrow> slice (None, Some b) xs = take (nat b) xs"
  by (auto simp add: slice_def span_len_def start_of_def stop_of_def norm_index_nonneg min_def)

lemma slice_Some_None: "0 \<le> a \<Longrightarrow> slice (Some a, None) xs = drop (nat a) xs"
  by (auto simp add: slice_def span_len_def start_of_def stop_of_def norm_index_nonneg min_def)

lemma span_len_Some_Some:
  "0 \<le> a \<Longrightarrow> 0 \<le> b \<Longrightarrow> span_len n (Some a, Some b) = min n (nat b) - min n (nat a)"
  by (simp add: span_len_def start_of_def stop_of_def norm_index_nonneg)

lemma span_len_None_Some: "0 \<le> b \<Longrightarrow> span_len n (None, Some b) = min n (nat b)"
  by (simp add: span_len_def start_of_def stop_of_def norm_index_nonneg)

lemma span_len_Some_None: "0 \<le> a \<Longrightarrow> span_len n (Some a, None) = n - min n (nat a)"
  by (simp add: span_len_def start_of_def stop_of_def norm_index_nonneg)

lemma length_chunk [simp]: "length (chunk h w xs) = h"
  by (induction h arbitrary: xs) simp_all

lemma chunk_take: "chunk h w (take (h * w) xs) = chunk h w xs"
proof (induction h arbitrary: xs)
  case (Suc h)
  have "drop w (take (w + h * w) xs) = take (h * w) (drop w xs)"
    by (simp add: drop_take)
  then show ?case using Suc by (simp add: min_def)
qed simp

lemma chunk_take_more: "h * w \<le> n \<Longrightarrow> chunk h w (take n xs) = chunk h w xs"
proof -
  assume "h * w \<le> n"
  then have "take (h * w) (take n xs) = take (h * w) xs" by (simp add: min_def)
  then show ?thesis by (metis chunk_take)
qed

lemma chunk_map: "chunk h w (map f xs) = map (map f) (chunk h w xs)"
  by (induction h arbitrary: xs) (simp_all add: take_map drop_map)

lemma chunk_concat:
  "length rs = h \<Longrightarrow> \<forall>r\<in>set rs. length r = w \<Longrightarrow> chunk h w (concat rs @ ys) = rs"
  by (induction rs arbitrary: h) auto

lemma chunk_concat': 
  "length rs = h \<Longrightarrow> \<forall>r\<in>set rs. length r = w \<Longrightarrow> chunk h w (concat rs) = rs"
  using chunk_concat [of rs h w "[]"] by simp

lemma chunk_rows: "h * w \<le> length xs \<Longrightarrow> r \<in> set (chunk h w xs) \<Longrightarrow> length r = w"
proof (induction h arbitrary: xs)
  case (Suc h)
  from Suc.prems(2) consider "r = take w xs" | "r \<in> set (chunk h w (drop w xs))" by auto
  then show ?case
  proof cases
    case 1
    with Suc.prems(1) show ?thesis by simp
  next
    case 2
    moreover have "h * w \<le> length (drop w xs)" using Suc.prems(1) by simp
    ultimately show ?thesis using Suc.IH by blast
  qed
qed simp

section \<open>Lemmas: the recoverers\<close>

lemma zip3_map: "zip (map f xs) (zip (map g xs) (map h xs)) = map (\<lambda>x. (f x, g x, h x)) xs"
  by (induction xs) simp_all

lemma reshape_seg:
  assumes "0 \<le> a" "a \<le> b" "b \<le> int (sL x)" "0 \<le> h" "0 \<le> w" "b - a = h * w"
  shows "reshape_hw h w (slice_l (Some a, Some b) x)
       = Inr \<lparr>nC = sC x, nH = nat h, nW = nat w,
              planes = map (\<lambda>r. chunk (nat h) (nat w) (drop (nat a) r)) (srows x)\<rparr>"
proof -
  have n: "nat b - nat a = nat h * nat w"
    using assms by (metis nat_diff_distrib nat_mult_distrib)
  have "nat a \<le> nat b" "nat b \<le> sL x" using assms by linarith+
  moreover have "span_len (sL x) (Some a, Some b) = min (sL x) (nat b) - min (sL x) (nat a)"
    by (rule span_len_Some_Some) (use assms in linarith)+
  ultimately have len: "span_len (sL x) (Some a, Some b) = nat h * nat w"
    using n by simp
  have "chunk (nat h) (nat w) (take (nat b - nat a) (drop (nat a) r)) = chunk (nat h) (nat w) (drop (nat a) r)"
    for r :: "'a list"
    using chunk_take [of "nat h" "nat w" "drop (nat a) r"] n by simp
  then show ?thesis
    using assms len by (simp add: reshape_hw_def slice_l_def slice_Some_Some)
qed

lemma reshape_seg_first:
  assumes "0 \<le> b" "b \<le> int (sL x)" "0 \<le> h" "0 \<le> w" "b = h * w"
  shows "reshape_hw h w (slice_l (None, Some b) x)
       = Inr \<lparr>nC = sC x, nH = nat h, nW = nat w,
              planes = map (\<lambda>r. chunk (nat h) (nat w) r) (srows x)\<rparr>"
proof -
  have n: "nat b = nat h * nat w"
    using assms by (metis nat_mult_distrib)
  have "nat b \<le> sL x" using assms by linarith
  moreover have "span_len (sL x) (None, Some b) = min (sL x) (nat b)"
    by (rule span_len_None_Some) (rule assms)
  ultimately have len: "span_len (sL x) (None, Some b) = nat h * nat w"
    using n by simp
  have "chunk (nat h) (nat w) (take (nat b) r) = chunk (nat h) (nat w) r"
    for r :: "'a list"
    using chunk_take [of "nat h" "nat w" r] n by simp
  then show ?thesis
    using assms len by (simp add: reshape_hw_def slice_l_def slice_None_Some)
qed

lemma reshape_seg_last:
  assumes "0 \<le> a" "a \<le> int (sL x)" "0 \<le> h" "0 \<le> w" "int (sL x) - a = h * w"
  shows "reshape_hw h w (slice_l (Some a, None) x)
       = Inr \<lparr>nC = sC x, nH = nat h, nW = nat w,
              planes = map (\<lambda>r. chunk (nat h) (nat w) (drop (nat a) r)) (srows x)\<rparr>"
proof -
  have "nat (int (sL x) - a) = nat h * nat w"
    using assms by (metis nat_mult_distrib)
  then have n: "sL x - nat a = nat h * nat w"
    using assms by (simp add: nat_diff_distrib)
  have "nat a \<le> sL x" using assms by linarith
  moreover have "span_len (sL x) (Some a, None) = sL x - min (sL x) (nat a)"
    by (rule span_len_Some_None) (rule assms)
  ultimately have len: "span_len (sL x) (Some a, None) = nat h * nat w"
    using n by simp
  show ?thesis
    using assms len by (simp add: reshape_hw_def slice_l_def slice_Some_None)
qed

lemma cat_w_maps:
  "cat_w \<lparr>nC = c, nH = h, nW = w1, planes = map f1 xs\<rparr>
         \<lparr>nC = c, nH = h, nW = w2, planes = map f2 xs\<rparr>
         \<lparr>nC = c, nH = h, nW = w3, planes = map f3 xs\<rparr>
   = Inr \<lparr>nC = c, nH = h, nW = w1 + w2 + w3,
          planes = map (\<lambda>r. band3 (f1 r) (f2 r) (f3 r)) xs\<rparr>"
  by (simp add: cat_w_def zip3_map band3_def)

lemma cat_h_maps:
  "cat_h \<lparr>nC = c, nH = h1, nW = w, planes = map f1 xs\<rparr>
         \<lparr>nC = c, nH = h2, nW = w, planes = map f2 xs\<rparr>
         \<lparr>nC = c, nH = h3, nW = w, planes = map f3 xs\<rparr>
   = Inr \<lparr>nC = c, nH = h1 + h2 + h3, nW = w,
          planes = map (\<lambda>r. f1 r @ f2 r @ f3 r) xs\<rparr>"
  by (simp add: cat_h_def zip3_map)

lemma assemble_maps:
  "assemble \<lparr>nC = c, nH = ht, nW = wl, planes = map f1 xs\<rparr>
            \<lparr>nC = c, nH = ht, nW = wm, planes = map f2 xs\<rparr>
            \<lparr>nC = c, nH = ht, nW = wr, planes = map f3 xs\<rparr>
            \<lparr>nC = c, nH = hm, nW = wl, planes = map f4 xs\<rparr>
            \<lparr>nC = c, nH = hm, nW = wm, planes = map f5 xs\<rparr>
            \<lparr>nC = c, nH = hm, nW = wr, planes = map f6 xs\<rparr>
            \<lparr>nC = c, nH = hb, nW = wl, planes = map f7 xs\<rparr>
            \<lparr>nC = c, nH = hb, nW = wm, planes = map f8 xs\<rparr>
            \<lparr>nC = c, nH = hb, nW = wr, planes = map f9 xs\<rparr>
   = Inr \<lparr>nC = c, nH = ht + hm + hb, nW = wl + wm + wr,
          planes = map (\<lambda>r. band3 (f1 r) (f2 r) (f3 r) @ band3 (f4 r) (f5 r) (f6 r)
                             @ band3 (f7 r) (f8 r) (f9 r)) xs\<rparr>"
  by (simp add: assemble_def cat_w_maps cat_h_maps)

lemma lr_tower:
  fixes ht hm hb wl wm wr :: int
  assumes nn: "0 \<le> ht" "0 \<le> hm" "0 \<le> hb" "0 \<le> wl" "0 \<le> wm" "0 \<le> wr"
    and o1: "o1 = ht * wl" and o2: "o2 = o1 + ht * wm" and o3: "o3 = o2 + ht * wr"
    and o4: "o4 = o3 + hm * wl" and o5: "o5 = o4 + hm * wm" and o6: "o6 = o5 + hm * wr"
    and o7: "o7 = o6 + hb * wl" and o8: "o8 = o7 + hb * wm"
    and L: "int (sL x) = o8 + hb * wr"
  shows
   "bind (reshape_hw ht wl (slice_l (None, Some o1) x)) (\<lambda>top_left.
    bind (reshape_hw ht wm (slice_l (Some o1, Some o2) x)) (\<lambda>top'.
    bind (reshape_hw ht wr (slice_l (Some o2, Some o3) x)) (\<lambda>top_right.
    bind (reshape_hw hm wl (slice_l (Some o3, Some o4) x)) (\<lambda>left.
    bind (reshape_hw hm wm (slice_l (Some o4, Some o5) x)) (\<lambda>center_block.
    bind (reshape_hw hm wr (slice_l (Some o5, Some o6) x)) (\<lambda>right.
    bind (reshape_hw hb wl (slice_l (Some o6, Some o7) x)) (\<lambda>bottom_left.
    bind (reshape_hw hb wm (slice_l (Some o7, Some o8) x)) (\<lambda>bottom.
    bind (reshape_hw hb wr (slice_l (Some o8, None) x)) (\<lambda>bottom_right.
    assemble top_left top' top_right left center_block right
             bottom_left bottom bottom_right)))))))))
    = Inr \<lparr>nC = sC x, nH = nat (ht + hm + hb), nW = nat (wl + wm + wr),
           planes = map (asm_lr (nat ht) (nat hm) (nat hb) (nat wl) (nat wm) (nat wr)) (srows x)\<rparr>"
proof -
  have p: "0 \<le> ht * wl" "0 \<le> ht * wm" "0 \<le> ht * wr" "0 \<le> hm * wl" "0 \<le> hm * wm"
     "0 \<le> hm * wr" "0 \<le> hb * wl" "0 \<le> hb * wm" "0 \<le> hb * wr"
    using nn by simp_all
  have ge: "0 \<le> o1" "o1 \<le> o2" "o2 \<le> o3" "o3 \<le> o4" "o4 \<le> o5" "o5 \<le> o6" "o6 \<le> o7" "o7 \<le> o8"
     "o8 \<le> int (sL x)"
    using p o1 o2 o3 o4 o5 o6 o7 o8 L by linarith+
  have s1: "reshape_hw ht wl (slice_l (None, Some o1) x) = Inr \<lparr>nC = sC x, nH = nat ht, nW = nat wl,
              planes = map (\<lambda>r. chunk (nat ht) (nat wl) r) (srows x)\<rparr>"
    by (rule reshape_seg_first) (use nn ge o1 in linarith)+
  have s2: "reshape_hw ht wm (slice_l (Some o1, Some o2) x) = Inr \<lparr>nC = sC x, nH = nat ht, nW = nat wm,
              planes = map (\<lambda>r. chunk (nat ht) (nat wm) (drop (nat o1) r)) (srows x)\<rparr>"
    by (rule reshape_seg) (use nn ge o2 in linarith)+
  have s3: "reshape_hw ht wr (slice_l (Some o2, Some o3) x) = Inr \<lparr>nC = sC x, nH = nat ht, nW = nat wr,
              planes = map (\<lambda>r. chunk (nat ht) (nat wr) (drop (nat o2) r)) (srows x)\<rparr>"
    by (rule reshape_seg) (use nn ge o3 in linarith)+
  have s4: "reshape_hw hm wl (slice_l (Some o3, Some o4) x) = Inr \<lparr>nC = sC x, nH = nat hm, nW = nat wl,
              planes = map (\<lambda>r. chunk (nat hm) (nat wl) (drop (nat o3) r)) (srows x)\<rparr>"
    by (rule reshape_seg) (use nn ge o4 in linarith)+
  have s5: "reshape_hw hm wm (slice_l (Some o4, Some o5) x) = Inr \<lparr>nC = sC x, nH = nat hm, nW = nat wm,
              planes = map (\<lambda>r. chunk (nat hm) (nat wm) (drop (nat o4) r)) (srows x)\<rparr>"
    by (rule reshape_seg) (use nn ge o5 in linarith)+
  have s6: "reshape_hw hm wr (slice_l (Some o5, Some o6) x) = Inr \<lparr>nC = sC x, nH = nat hm, nW = nat wr,
              planes = map (\<lambda>r. chunk (nat hm) (nat wr) (drop (nat o5) r)) (srows x)\<rparr>"
    by (rule reshape_seg) (use nn ge o6 in linarith)+
  have s7: "reshape_hw hb wl (slice_l (Some o6, Some o7) x) = Inr \<lparr>nC = sC x, nH = nat hb, nW = nat wl,
              planes = map (\<lambda>r. chunk (nat hb) (nat wl) (drop (nat o6) r)) (srows x)\<rparr>"
    by (rule reshape_seg) (use nn ge o7 in linarith)+
  have s8: "reshape_hw hb wm (slice_l (Some o7, Some o8) x) = Inr \<lparr>nC = sC x, nH = nat hb, nW = nat wm,
              planes = map (\<lambda>r. chunk (nat hb) (nat wm) (drop (nat o7) r)) (srows x)\<rparr>"
    by (rule reshape_seg) (use nn ge o8 in linarith)+
  have s9: "reshape_hw hb wr (slice_l (Some o8, None) x) = Inr \<lparr>nC = sC x, nH = nat hb, nW = nat wr,
              planes = map (\<lambda>r. chunk (nat hb) (nat wr) (drop (nat o8) r)) (srows x)\<rparr>"
    by (rule reshape_seg_last) (use nn ge L in linarith)+
  have n: "nat o1 = nat ht * nat wl"
    "nat o2 = nat ht * nat wl + nat ht * nat wm"
    "nat o3 = nat ht * (nat wl + nat wm + nat wr)"
    "nat o4 = nat ht * (nat wl + nat wm + nat wr) + nat hm * nat wl"
    "nat o5 = nat ht * (nat wl + nat wm + nat wr) + nat hm * nat wl + nat hm * nat wm"
    "nat o6 = nat ht * (nat wl + nat wm + nat wr) + nat hm * (nat wl + nat wm + nat wr)"
    "nat o7 = nat ht * (nat wl + nat wm + nat wr) + nat hm * (nat wl + nat wm + nat wr) + nat hb * nat wl"
    "nat o8 = nat ht * (nat wl + nat wm + nat wr) + nat hm * (nat wl + nat wm + nat wr) + nat hb * nat wl + nat hb * nat wm"
    using nn p unfolding o1 o2 o3 o4 o5 o6 o7 o8
    by (simp_all add: nat_add_distrib nat_mult_distrib algebra_simps)
  have d: "nat (ht + hm + hb) = nat ht + nat hm + nat hb" "nat (wl + wm + wr) = nat wl + nat wm + nat wr"
    using nn by (simp_all add: nat_add_distrib)
  show ?thesis
    unfolding s1 s2 s3 s4 s5 s6 s7 s8 s9 bind_Inr assemble_maps d
    by (simp add: asm_lr_def Let_def n)
qed


lemma ud_tower:
  fixes ht hm hb wl wm wr :: int
  assumes nn: "0 \<le> ht" "0 \<le> hm" "0 \<le> hb" "0 \<le> wl" "0 \<le> wm" "0 \<le> wr"
    and o1: "o1 = ht * wl" and o2: "o2 = o1 + hm * wl" and o3: "o3 = o2 + hb * wl"
    and o4: "o4 = o3 + ht * wm" and o5: "o5 = o4 + hm * wm" and o6: "o6 = o5 + hb * wm"
    and o7: "o7 = o6 + ht * wr" and o8: "o8 = o7 + hm * wr"
    and L: "int (sL x) = o8 + hb * wr"
  shows
   "bind (reshape_hw ht wl (slice_l (None, Some o1) x)) (\<lambda>top_left.
    bind (reshape_hw hm wl (slice_l (Some o1, Some o2) x)) (\<lambda>left.
    bind (reshape_hw hb wl (slice_l (Some o2, Some o3) x)) (\<lambda>bottom_left.
    bind (reshape_hw ht wm (slice_l (Some o3, Some o4) x)) (\<lambda>top'.
    bind (reshape_hw hm wm (slice_l (Some o4, Some o5) x)) (\<lambda>center_block.
    bind (reshape_hw hb wm (slice_l (Some o5, Some o6) x)) (\<lambda>bottom.
    bind (reshape_hw ht wr (slice_l (Some o6, Some o7) x)) (\<lambda>top_right.
    bind (reshape_hw hm wr (slice_l (Some o7, Some o8) x)) (\<lambda>right.
    bind (reshape_hw hb wr (slice_l (Some o8, None) x)) (\<lambda>bottom_right.
    assemble top_left top' top_right left center_block right
             bottom_left bottom bottom_right)))))))))
    = Inr \<lparr>nC = sC x, nH = nat (ht + hm + hb), nW = nat (wl + wm + wr),
           planes = map (asm_ud (nat ht) (nat hm) (nat hb) (nat wl) (nat wm) (nat wr)) (srows x)\<rparr>"
proof -
  have p: "0 \<le> ht * wl" "0 \<le> ht * wm" "0 \<le> ht * wr" "0 \<le> hm * wl" "0 \<le> hm * wm"
     "0 \<le> hm * wr" "0 \<le> hb * wl" "0 \<le> hb * wm" "0 \<le> hb * wr"
    using nn by simp_all
  have ge: "0 \<le> o1" "o1 \<le> o2" "o2 \<le> o3" "o3 \<le> o4" "o4 \<le> o5" "o5 \<le> o6" "o6 \<le> o7" "o7 \<le> o8"
     "o8 \<le> int (sL x)"
    using p o1 o2 o3 o4 o5 o6 o7 o8 L by linarith+
  have s1: "reshape_hw ht wl (slice_l (None, Some o1) x) = Inr \<lparr>nC = sC x, nH = nat ht, nW = nat wl,
              planes = map (\<lambda>r. chunk (nat ht) (nat wl) r) (srows x)\<rparr>"
    by (rule reshape_seg_first) (use nn ge o1 in linarith)+
  have s2: "reshape_hw hm wl (slice_l (Some o1, Some o2) x) = Inr \<lparr>nC = sC x, nH = nat hm, nW = nat wl,
              planes = map (\<lambda>r. chunk (nat hm) (nat wl) (drop (nat o1) r)) (srows x)\<rparr>"
    by (rule reshape_seg) (use nn ge o2 in linarith)+
  have s3: "reshape_hw hb wl (slice_l (Some o2, Some o3) x) = Inr \<lparr>nC = sC x, nH = nat hb, nW = nat wl,
              planes = map (\<lambda>r. chunk (nat hb) (nat wl) (drop (nat o2) r)) (srows x)\<rparr>"
    by (rule reshape_seg) (use nn ge o3 in linarith)+
  have s4: "reshape_hw ht wm (slice_l (Some o3, Some o4) x) = Inr \<lparr>nC = sC x, nH = nat ht, nW = nat wm,
              planes = map (\<lambda>r. chunk (nat ht) (nat wm) (drop (nat o3) r)) (srows x)\<rparr>"
    by (rule reshape_seg) (use nn ge o4 in linarith)+
  have s5: "reshape_hw hm wm (slice_l (Some o4, Some o5) x) = Inr \<lparr>nC = sC x, nH = nat hm, nW = nat wm,
              planes = map (\<lambda>r. chunk (nat hm) (nat wm) (drop (nat o4) r)) (srows x)\<rparr>"
    by (rule reshape_seg) (use nn ge o5 in linarith)+
  have s6: "reshape_hw hb wm (slice_l (Some o5, Some o6) x) = Inr \<lparr>nC = sC x, nH = nat hb, nW = nat wm,
              planes = map (\<lambda>r. chunk (nat hb) (nat wm) (drop (nat o5) r)) (srows x)\<rparr>"
    by (rule reshape_seg) (use nn ge o6 in linarith)+
  have s7: "reshape_hw ht wr (slice_l (Some o6, Some o7) x) = Inr \<lparr>nC = sC x, nH = nat ht, nW = nat wr,
              planes = map (\<lambda>r. chunk (nat ht) (nat wr) (drop (nat o6) r)) (srows x)\<rparr>"
    by (rule reshape_seg) (use nn ge o7 in linarith)+
  have s8: "reshape_hw hm wr (slice_l (Some o7, Some o8) x) = Inr \<lparr>nC = sC x, nH = nat hm, nW = nat wr,
              planes = map (\<lambda>r. chunk (nat hm) (nat wr) (drop (nat o7) r)) (srows x)\<rparr>"
    by (rule reshape_seg) (use nn ge o8 in linarith)+
  have s9: "reshape_hw hb wr (slice_l (Some o8, None) x) = Inr \<lparr>nC = sC x, nH = nat hb, nW = nat wr,
              planes = map (\<lambda>r. chunk (nat hb) (nat wr) (drop (nat o8) r)) (srows x)\<rparr>"
    by (rule reshape_seg_last) (use nn ge L in linarith)+
  have n: "nat o1 = nat ht * nat wl"
    "nat o2 = nat ht * nat wl + nat hm * nat wl"
    "nat o3 = (nat ht + nat hm + nat hb) * nat wl"
    "nat o4 = (nat ht + nat hm + nat hb) * nat wl + nat ht * nat wm"
    "nat o5 = (nat ht + nat hm + nat hb) * nat wl + nat ht * nat wm + nat hm * nat wm"
    "nat o6 = (nat ht + nat hm + nat hb) * nat wl + (nat ht + nat hm + nat hb) * nat wm"
    "nat o7 = (nat ht + nat hm + nat hb) * nat wl + (nat ht + nat hm + nat hb) * nat wm + nat ht * nat wr"
    "nat o8 = (nat ht + nat hm + nat hb) * nat wl + (nat ht + nat hm + nat hb) * nat wm + nat ht * nat wr + nat hm * nat wr"
    using nn p unfolding o1 o2 o3 o4 o5 o6 o7 o8
    by (simp_all add: nat_add_distrib nat_mult_distrib algebra_simps)
  have d: "nat (ht + hm + hb) = nat ht + nat hm + nat hb" "nat (wl + wm + wr) = nat wl + nat wm + nat wr"
    using nn by (simp_all add: nat_add_distrib)
  show ?thesis
    unfolding s1 s2 s3 s4 s5 s6 s7 s8 s9 bind_Inr assemble_maps d
    by (simp add: asm_ud_def Let_def n)
qed

lemma recover_window_lr_ok:
  assumes k: "0 \<le> kern" and L: "int (sL x) = (2 * kern) * (2 * kern)"
  shows "recover_window_lr x kern
       = Inr \<lparr>nC = sC x, nH = nat (2 * kern), nW = nat (2 * kern),
              planes = map (rec_lr_plane (nat kern)) (srows x)\<rparr>"
proof (cases "kern mod 2 = 0")
  case True
  then have "even kern" by (simp add: even_iff_mod_2_eq_zero)
  then obtain S where S: "kern = 2 * S" by (elim evenE)
  have S0: "0 \<le> S" using k S by simp
  have nS: "nat (2 * S) div 2 = nat S" "nat (2 * S) - nat S = nat S" "nat (S * 2) = nat (2 * S)"
    using S0 by (simp_all add: nat_mult_distrib)
  have dv: "2 * S div 2 = S" "2 * S mod 2 = 0" by simp_all
  have L': "int (sL x) = 16 * (S * S)" using L S by simp
  have d4: "nat (S + S * 2 + S) = nat (2 * (2 * S))" by (simp add: algebra_simps)
  show ?thesis
    unfolding recover_window_lr_def Let_def S
    apply (simp only: dv if_True refl)
    apply (rule trans [OF lr_tower])
    subgoal by (rule S0)
    subgoal using S0 by simp
    subgoal by (rule S0)
    subgoal by (rule S0)
    subgoal using S0 by simp
    subgoal by (rule S0)
    subgoal by (rule refl)
    subgoal by (simp add: algebra_simps)
    subgoal by (simp add: algebra_simps)
    subgoal by (simp add: algebra_simps)
    subgoal by (simp add: algebra_simps)
    subgoal by (simp add: algebra_simps)
    subgoal by (simp add: algebra_simps)
    subgoal by (simp add: algebra_simps)
    subgoal by (simp add: L' algebra_simps)
    subgoal by (simp only: d4 rec_lr_plane_def nS)
    done
next
  case False
  then have "odd kern" by (simp add: even_iff_mod_2_eq_zero)
  then obtain S where S: "kern = 2 * S + 1" by (elim oddE)
  have S0: "0 \<le> S" using k S by linarith
  have dv: "(2 * S + 1) div 2 = S" "(2 * S + 1) mod 2 = 0 \<longleftrightarrow> False" by simp_all
  have nS: "nat (2 * S + 1) div 2 = nat S" "nat (2 * S + 1) - nat S = nat (S + 1)"
    using S0 by (simp_all add: nat_add_distrib nat_mult_distrib)
  have L': "int (sL x) = 16 * (S * S) + 16 * S + 4" using L S by (simp add: algebra_simps)
  have d4: "nat (S + (2 * S + 1) + (S + 1)) = nat (2 * (2 * S + 1))" by (simp add: algebra_simps)
  show ?thesis
    unfolding recover_window_lr_def Let_def S
    apply (simp only: dv if_False refl)
    apply (rule trans [OF lr_tower])
    subgoal by (rule S0)
    subgoal using S0 by simp
    subgoal using S0 by simp
    subgoal by (rule S0)
    subgoal using S0 by simp
    subgoal using S0 by simp
    subgoal by (rule refl)
    subgoal by (simp add: algebra_simps)
    subgoal by (simp add: algebra_simps)
    subgoal by (simp add: algebra_simps)
    subgoal by (simp add: algebra_simps)
    subgoal by (simp add: algebra_simps)
    subgoal by (simp add: algebra_simps)
    subgoal by (simp add: algebra_simps)
    subgoal by (simp add: L' algebra_simps)
    subgoal by (simp only: d4 rec_lr_plane_def nS)
    done
qed

lemma recover_window_ud_ok:
  assumes k: "0 \<le> kern" and L: "int (sL x) = (2 * kern) * (2 * kern)"
  shows "recover_window_ud x kern
       = Inr \<lparr>nC = sC x, nH = nat (2 * kern), nW = nat (2 * kern),
              planes = map (rec_ud_plane (nat kern)) (srows x)\<rparr>"
proof (cases "kern mod 2 = 0")
  case True
  then have "even kern" by (simp add: even_iff_mod_2_eq_zero)
  then obtain S where S: "kern = 2 * S" by (elim evenE)
  have S0: "0 \<le> S" using k S by simp
  have nS: "nat (2 * S) div 2 = nat S" "nat (2 * S) - nat S = nat S" "nat (S * 2) = nat (2 * S)"
    using S0 by (simp_all add: nat_mult_distrib)
  have dv: "2 * S div 2 = S" "2 * S mod 2 = 0" by simp_all
  have L': "int (sL x) = 16 * (S * S)" using L S by simp
  have d4: "nat (S + S * 2 + S) = nat (2 * (2 * S))" by (simp add: algebra_simps)
  show ?thesis
    unfolding recover_window_ud_def Let_def S
    apply (simp only: dv if_True refl)
    apply (rule trans [OF ud_tower])
    subgoal by (rule S0)
    subgoal using S0 by simp
    subgoal by (rule S0)
    subgoal by (rule S0)
    subgoal using S0 by simp
    subgoal by (rule S0)
    subgoal by (rule refl)
    subgoal by (simp add: algebra_simps)
    subgoal by (simp add: algebra_simps)
    subgoal by (simp add: algebra_simps)
    subgoal by (simp add: algebra_simps)
    subgoal by (simp add: algebra_simps)
    subgoal by (simp add: algebra_simps)
    subgoal by (simp add: algebra_simps)
    subgoal by (simp add: L' algebra_simps)
    subgoal by (simp only: d4 rec_ud_plane_def nS)
    done
next
  case False
  then have "odd kern" by (simp add: even_iff_mod_2_eq_zero)
  then obtain S where S: "kern = 2 * S + 1" by (elim oddE)
  have S0: "0 \<le> S" using k S by linarith
  have dv: "(2 * S + 1) div 2 = S" "(2 * S + 1) mod 2 = 0 \<longleftrightarrow> False" by simp_all
  have nS: "nat (2 * S + 1) div 2 = nat S" "nat (2 * S + 1) - nat S = nat (S + 1)"
    using S0 by (simp_all add: nat_add_distrib nat_mult_distrib)
  have L': "int (sL x) = 16 * (S * S) + 16 * S + 4" using L S by (simp add: algebra_simps)
  have d4: "nat (S + (2 * S + 1) + (S + 1)) = nat (2 * (2 * S + 1))" by (simp add: algebra_simps)
  show ?thesis
    unfolding recover_window_ud_def Let_def S
    apply (simp only: dv if_False refl)
    apply (rule trans [OF ud_tower])
    subgoal by (rule S0)
    subgoal using S0 by simp
    subgoal using S0 by simp
    subgoal by (rule S0)
    subgoal using S0 by simp
    subgoal using S0 by simp
    subgoal by (rule refl)
    subgoal by (simp add: algebra_simps)
    subgoal by (simp add: algebra_simps)
    subgoal by (simp add: algebra_simps)
    subgoal by (simp add: algebra_simps)
    subgoal by (simp add: algebra_simps)
    subgoal by (simp add: algebra_simps)
    subgoal by (simp add: algebra_simps)
    subgoal by (simp add: L' algebra_simps)
    subgoal by (simp only: d4 rec_ud_plane_def nS)
    done
qed


lemma lr_tower_Inr:
  assumes
   "bind (reshape_hw ht wl (slice_l (None, Some o1) x)) (\<lambda>top_left.
    bind (reshape_hw ht wm (slice_l (Some o1, Some o2) x)) (\<lambda>top'.
    bind (reshape_hw ht wr (slice_l (Some o2, Some o3) x)) (\<lambda>top_right.
    bind (reshape_hw hm wl (slice_l (Some o3, Some o4) x)) (\<lambda>left.
    bind (reshape_hw hm wm (slice_l (Some o4, Some o5) x)) (\<lambda>center_block.
    bind (reshape_hw hm wr (slice_l (Some o5, Some o6) x)) (\<lambda>right.
    bind (reshape_hw hb wl (slice_l (Some o6, Some o7) x)) (\<lambda>bottom_left.
    bind (reshape_hw hb wm (slice_l (Some o7, Some o8) x)) (\<lambda>bottom.
    bind (reshape_hw hb wr (slice_l (Some o8, None) x)) (\<lambda>bottom_right.
    assemble top_left top' top_right left center_block right
             bottom_left bottom bottom_right)))))))))
    = Inr y"
  shows "(\<exists>g. reshape_hw ht wl (slice_l (None, Some o1) x) = Inr g) \<and>
         (\<exists>g. reshape_hw hb wr (slice_l (Some o8, None) x) = Inr g)"
  using assms by (auto simp add: bind_eq_Inr)

lemma ud_tower_Inr:
  assumes
   "bind (reshape_hw ht wl (slice_l (None, Some o1) x)) (\<lambda>top_left.
    bind (reshape_hw hm wl (slice_l (Some o1, Some o2) x)) (\<lambda>left.
    bind (reshape_hw hb wl (slice_l (Some o2, Some o3) x)) (\<lambda>bottom_left.
    bind (reshape_hw ht wm (slice_l (Some o3, Some o4) x)) (\<lambda>top'.
    bind (reshape_hw hm wm (slice_l (Some o4, Some o5) x)) (\<lambda>center_block.
    bind (reshape_hw hb wm (slice_l (Some o5, Some o6) x)) (\<lambda>bottom.
    bind (reshape_hw ht wr (slice_l (Some o6, Some o7) x)) (\<lambda>top_right.
    bind (reshape_hw hm wr (slice_l (Some o7, Some o8) x)) (\<lambda>right.
    bind (reshape_hw hb wr (slice_l (Some o8, None) x)) (\<lambda>bottom_right.
    assemble top_left top' top_right left center_block right
             bottom_left bottom bottom_right)))))))))
    = Inr y"
  shows "(\<exists>g. reshape_hw ht wl (slice_l (None, Some o1) x) = Inr g) \<and>
         (\<exists>g. reshape_hw hb wr (slice_l (Some o8, None) x) = Inr g)"
  using assms by (auto simp add: bind_eq_Inr)

lemma reshape_square_Inr: "reshape_hw h h s = Inr g \<Longrightarrow> 0 \<le> h"
  by (auto simp add: reshape_hw_def Let_def split: if_splits)

lemma reshape_last_Inr:
  assumes r: "reshape_hw h w (slice_l (Some a, None) x) = Inr g"
    and nn: "0 \<le> a" "0 \<le> h" "0 \<le> w" and C: "0 < sC x"
    and pos: "a = 0 \<or> 0 < h * w"
  shows "int (sL x) = a + h * w"
proof -
  have "span_len (sL x) (Some a, None) = nat h * nat w"
    using r nn C by (auto simp add: reshape_hw_def Let_def slice_l_def split: if_splits)
  then have e: "sL x - min (sL x) (nat a) = nat h * nat w"
    using nn by (simp add: span_len_Some_None)
  have hw: "int (nat h * nat w) = h * w" using nn by simp
  show ?thesis
  proof (cases "a = 0")
    case True
    with e hw show ?thesis by simp
  next
    case False
    with pos have "0 < h * w" by simp
    then have "0 < nat h * nat w" using hw by linarith
    with e have "nat a < sL x" by (simp add: min_def split: if_splits)
    with e have "sL x = nat a + nat h * nat w" by simp
    then have "int (sL x) = int (nat a) + int (nat h * nat w)" by simp
    then show ?thesis using nn hw by simp
  qed
qed

lemma recover_window_lr_Inr:
  assumes r: "recover_window_lr x kern = Inr y" and C: "0 < sC x"
  shows "0 \<le> kern \<and> int (sL x) = (2 * kern) * (2 * kern)"
proof (cases "kern mod 2 = 0")
  case True
  then have "even kern" by (simp add: even_iff_mod_2_eq_zero)
  then obtain S where S: "kern = 2 * S" by (elim evenE)
  have dv: "2 * S div 2 = S" "2 * S mod 2 = 0" by simp_all
  from r have t: "(\<exists>g. reshape_hw S S (slice_l (None, Some (S * S)) x) = Inr g) \<and>
      (\<exists>g. reshape_hw S S (slice_l (Some (3 * (S * S) + 4 * (S * S * 2) + S * S * 4), None) x) = Inr g)"
    unfolding recover_window_lr_def Let_def S
    apply (simp only: dv if_True refl)
    apply (erule lr_tower_Inr)
    done
  then have S0: "0 \<le> S" by (auto dest: reshape_square_Inr)
  from t obtain g where g: "reshape_hw S S (slice_l (Some (3 * (S * S) + 4 * (S * S * 2) + S * S * 4), None) x) = Inr g"
    by blast
  have "int (sL x) = (3 * (S * S) + 4 * (S * S * 2) + S * S * 4) + S * S"
  proof (rule reshape_last_Inr [OF g _ S0 S0 C])
    show "0 \<le> 3 * (S * S) + 4 * (S * S * 2) + S * S * 4" using S0 by simp
    show "3 * (S * S) + 4 * (S * S * 2) + S * S * 4 = 0 \<or> 0 < S * S"
      using S0 by (cases "S = 0") simp_all
  qed
  then show ?thesis using S0 S by (simp add: algebra_simps)
next
  case False
  then have "odd kern" by (simp add: even_iff_mod_2_eq_zero)
  then obtain S where S: "kern = 2 * S + 1" by (elim oddE)
  have dv: "(2 * S + 1) div 2 = S" "(2 * S + 1) mod 2 = 0 \<longleftrightarrow> False" by simp_all
  define a where "a = S * S + 2 * (S * (S + 1)) + 2 * (S * (2 * S + 1)) + 2 * ((S + 1) * (2 * S + 1))
                      + (2 * S + 1) * (2 * S + 1)"
  from r have t: "(\<exists>g. reshape_hw S S (slice_l (None, Some (S * S)) x) = Inr g) \<and>
      (\<exists>g. reshape_hw (S + 1) (S + 1) (slice_l (Some a, None) x) = Inr g)"
    unfolding recover_window_lr_def Let_def S a_def
    apply (simp only: dv if_False refl)
    apply (erule lr_tower_Inr)
    done
  then have S0: "0 \<le> S" by (auto dest: reshape_square_Inr)
  from t obtain g where g: "reshape_hw (S + 1) (S + 1) (slice_l (Some a, None) x) = Inr g"
    by blast
  have "int (sL x) = a + (S + 1) * (S + 1)"
  proof (rule reshape_last_Inr [OF g _ _ _ C])
    show "0 \<le> a" using S0 by (simp add: a_def)
    show "0 \<le> S + 1" "0 \<le> S + 1" using S0 by simp_all
    show "a = 0 \<or> 0 < (S + 1) * (S + 1)" using S0 by simp
  qed
  then show ?thesis using S0 S by (simp add: a_def algebra_simps)
qed

lemma recover_window_ud_Inr:
  assumes r: "recover_window_ud x kern = Inr y" and C: "0 < sC x"
  shows "0 \<le> kern \<and> int (sL x) = (2 * kern) * (2 * kern)"
proof (cases "kern mod 2 = 0")
  case True
  then have "even kern" by (simp add: even_iff_mod_2_eq_zero)
  then obtain S where S: "kern = 2 * S" by (elim evenE)
  have dv: "2 * S div 2 = S" "2 * S mod 2 = 0" by simp_all
  from r have t: "(\<exists>g. reshape_hw S S (slice_l (None, Some (S * S)) x) = Inr g) \<and>
      (\<exists>g. reshape_hw S S (slice_l (Some (3 * (S * S) + 4 * (S * S * 2) + S * S * 4), None) x) = Inr g)"
    unfolding recover_window_ud_def Let_def S
    apply (simp only: dv if_True refl)
    apply (erule ud_tower_Inr)
    done
  then have S0: "0 \<le> S" by (auto dest: reshape_square_Inr)
  from t obtain g where g: "reshape_hw S S (slice_l (Some (3 * (S * S) + 4 * (S * S * 2) + S * S * 4), None) x) = Inr g"
    by blast
  have "int (sL x) = (3 * (S * S) + 4 * (S * S * 2) + S * S * 4) + S * S"
  proof (rule reshape_last_Inr [OF g _ S0 S0 C])
    show "0 \<le> 3 * (S * S) + 4 * (S * S * 2) + S * S * 4" using S0 by simp
    show "3 * (S * S) + 4 * (S * S * 2) + S * S * 4 = 0 \<or> 0 < S * S"
      using S0 by (cases "S = 0") simp_all
  qed
  then show ?thesis using S0 S by (simp add: algebra_simps)
next
  case False
  then have "odd kern" by (simp add: even_iff_mod_2_eq_zero)
  then obtain S where S: "kern = 2 * S + 1" by (elim oddE)
  have dv: "(2 * S + 1) div 2 = S" "(2 * S + 1) mod 2 = 0 \<longleftrightarrow> False" by simp_all
  define a where "a = S * S + 2 * (S * (S + 1)) + 2 * (S * (2 * S + 1)) + 2 * ((S + 1) * (2 * S + 1))
                      + (2 * S + 1) * (2 * S + 1)"
  from r have t: "(\<exists>g. reshape_hw S S (slice_l (None, Some (S * S)) x) = Inr g) \<and>
      (\<exists>g. reshape_hw (S + 1) (S + 1) (slice_l (Some a, None) x) = Inr g)"
    unfolding recover_window_ud_def Let_def S a_def
    apply (simp only: dv if_False refl)
    apply (erule ud_tower_Inr)
    done
  then have S0: "0 \<le> S" by (auto dest: reshape_square_Inr)
  from t obtain g where g: "reshape_hw (S + 1) (S + 1) (slice_l (Some a, None) x) = Inr g"
    by blast
  have "int (sL x) = a + (S + 1) * (S + 1)"
  proof (rule reshape_last_Inr [OF g _ _ _ C])
    show "0 \<le> a" using S0 by (simp add: a_def)
    show "0 \<le> S + 1" "0 \<le> S + 1" using S0 by simp_all
    show "a = 0 \<or> 0 < (S + 1) * (S + 1)" using S0 by simp
  qed
  then show ?thesis using S0 S by (simp add: a_def algebra_simps)
qed


lemma recover_center_blocks_ok:
  assumes "0 < kL x" and "0 \<le> kern" and "int (kL x) = (2 * kern) * (2 * kern)"
  shows "recover_center_blocks x kern =
     Inr (add_grid
       \<lparr>nC = kC x, nH = nat (2 * kern), nW = nat (2 * kern),
        planes = map (rec_lr_plane (nat kern)) (map2 (map2 (+)) (out1 x) (map rev (out3 x)))\<rparr>
       \<lparr>nC = kC x, nH = nat (2 * kern), nW = nat (2 * kern),
        planes = map (rec_ud_plane (nat kern)) (map2 (map2 (+)) (out2 x) (map rev (out4 x)))\<rparr>)"
  using assms
  by (simp add: recover_center_blocks_def Let_def reshape_l_def flip_def add_seqs_def
      recover_window_lr_ok recover_window_ud_ok)

lemma recover_center_blocks_Inr:
  assumes r: "recover_center_blocks x kern = Inr y" and C: "0 < kC x"
  shows "0 < kL x \<and> 0 \<le> kern \<and> int (kL x) = (2 * kern) * (2 * kern)"
proof -
  from r have L: "0 < kL x"
    by (auto simp add: recover_center_blocks_def Let_def reshape_l_def split: if_splits)
  with r obtain y1 where
    "recover_window_lr (add_seqs \<lparr>sC = kC x, sL = kL x, srows = out1 x\<rparr>
        (flip \<lparr>sC = kC x, sL = kL x, srows = out3 x\<rparr>)) kern = Inr y1"
    by (auto simp add: recover_center_blocks_def Let_def reshape_l_def bind_eq_Inr)
  from recover_window_lr_Inr [OF this] C L show ?thesis
    by (simp add: add_seqs_def)
qed

lemma blocks_ud_unbound_top_left:
  "\<not> guard H W kern TopLeft \<Longrightarrow> blocks_ud H W kern = Inl (UnboundLocalError ''top_left'')"
  by (simp add: blocks_ud_def ud_order_def var_name_def)

lemma cut3_parts: "cut3 a k 0 xs @ cut3 a k 1 xs @ cut3 a k 2 xs = xs"
proof -
  have "take k (drop a xs) @ drop (a + k) xs = drop a xs"
    by (metis add.commute append_take_drop_id drop_drop)
  then show ?thesis by (simp add: cut3_def)
qed

lemma all_guards_iff:
  "(\<forall>r. guard H W kern r) \<longleftrightarrow> kern + 2 \<le> int H \<and> kern + 2 \<le> int W"
proof
  assume a: "\<forall>r. guard H W kern r"
  from a have "guard H W kern TopLeft" by blast
  then show "kern + 2 \<le> int H \<and> kern + 2 \<le> int W"
    by (simp add: guard_def h_center_def w_center_def) linarith
next
  assume a: "kern + 2 \<le> int H \<and> kern + 2 \<le> int W"
  then have "0 < h_center H kern" "0 < w_center W kern"
    "0 < int H - (h_center H kern + kern)" "0 < int W - (w_center W kern + kern)"
    unfolding h_center_def w_center_def by linarith+
  then show "\<forall>r. guard H W kern r"
    by (auto simp add: guard_def Let_def split: region.splits)
qed

lemma row_span_cut:
  assumes "0 \<le> kern" "kern + 2 \<le> int H"
  shows "slice (row_span H kern r) p =
         cut3 (nat (h_center H kern)) (nat kern)
              (row_band r) p"
proof -
  have h: "0 \<le> h_center H kern" using assms unfolding h_center_def by linarith
  have n: "nat (h_center H kern + kern) - nat (h_center H kern) = nat kern"
    "nat (h_center H kern + kern) = nat (h_center H kern) + nat kern"
    using h assms by linarith+
  show ?thesis
    using h assms
    by (simp add: row_span_def row_band_def Let_def cut3_def slice_None_Some slice_Some_Some slice_Some_None n)
qed

lemma col_span_cut:
  assumes "0 \<le> kern" "kern + 2 \<le> int W"
  shows "slice (col_span W kern r) p =
         cut3 (nat (w_center W kern)) (nat kern)
              (col_band r) p"
proof -
  have h: "0 \<le> w_center W kern" using assms unfolding w_center_def by linarith
  have n: "nat (w_center W kern + kern) - nat (w_center W kern) = nat kern"
    "nat (w_center W kern + kern) = nat (w_center W kern) + nat kern"
    using h assms by linarith+
  show ?thesis
    using h assms
    by (simp add: col_span_def col_band_def Let_def cut3_def slice_None_Some slice_Some_Some slice_Some_None n)
qed


lemma length_slice: "length (slice s xs) = span_len (length xs) s"
proof -
  have "stop_of (length xs) (snd s) \<le> length xs"
    by (cases "snd s") (auto simp add: stop_of_def norm_index_def max_def)
  then show ?thesis by (simp add: slice_def span_len_def)
qed

lemma length_cut3:
  "a + k \<le> length xs \<Longrightarrow> i < 3 \<Longrightarrow> length (cut3 a k i xs) = band_size (length xs) a k i"
  by (simp add: cut3_def band_size_def)

lemma row_band_less [simp]: "row_band r < 3" and col_band_less [simp]: "col_band r < 3"
  by (simp_all add: row_band_def col_band_def)

lemma span_len_row_span:
  assumes "0 \<le> kern" "kern + 2 \<le> int H"
  shows "span_len H (row_span H kern r) = band_size H (nat (h_center H kern)) (nat kern) (row_band r)"
proof -
  have h: "0 \<le> h_center H kern" "h_center H kern + kern \<le> int H"
    using assms unfolding h_center_def by linarith+
  then have le: "nat (h_center H kern) + nat kern \<le> H" using assms by linarith
  have "span_len H (row_span H kern r) = length (slice (row_span H kern r) (replicate H ()))"
    by (simp add: length_slice)
  also have "\<dots> = length (cut3 (nat (h_center H kern)) (nat kern) (row_band r) (replicate H ()))"
    by (simp only: row_span_cut [OF assms])
  also have "\<dots> = band_size H (nat (h_center H kern)) (nat kern) (row_band r)"
    using le by (simp add: length_cut3)
  finally show ?thesis .
qed

lemma span_len_col_span:
  assumes "0 \<le> kern" "kern + 2 \<le> int W"
  shows "span_len W (col_span W kern r) = band_size W (nat (w_center W kern)) (nat kern) (col_band r)"
proof -
  have h: "0 \<le> w_center W kern" "w_center W kern + kern \<le> int W"
    using assms unfolding w_center_def by linarith+
  then have le: "nat (w_center W kern) + nat kern \<le> W" using assms by linarith
  have "span_len W (col_span W kern r) = length (slice (col_span W kern r) (replicate W ()))"
    by (simp add: length_slice)
  also have "\<dots> = length (cut3 (nat (w_center W kern)) (nat kern) (col_band r) (replicate W ()))"
    by (simp only: col_span_cut [OF assms])
  also have "\<dots> = band_size W (nat (w_center W kern)) (nat kern) (col_band r)"
    using le by (simp add: length_cut3)
  finally show ?thesis .
qed

lemma plane_block_blk:
  assumes "0 \<le> kern" "kern + 2 \<le> int H" "kern + 2 \<le> int W"
  shows "plane_block H W kern r p =
         blk (nat (h_center H kern)) (nat (w_center W kern)) (nat kern) (row_band r) (col_band r) p"
proof -
  have e: "slice (col_span W kern r) = cut3 (nat (w_center W kern)) (nat kern) (col_band r)"
    by (rule ext) (rule col_span_cut [OF assms(1,3)])
  show ?thesis
    unfolding plane_block_def blk_def e row_span_cut [OF assms(1,2)] ..
qed

lemma band_sizes_sum:
  "a + k \<le> n \<Longrightarrow> band_size n a k 0 + band_size n a k 1 + band_size n a k 2 = n"
  by (simp add: band_size_def)


lemma blocks_all_guards:
  assumes "\<forall>r. guard H W kern r"
  shows "blocks_ud H W kern = Inr ud_order" and "blocks_lr H W kern = lr_order"
  using assms by (simp_all add: blocks_ud_def blocks_lr_def ud_order_def lr_order_def)

lemma blocks_ud_Inr: "blocks_ud H W kern = Inr bs \<Longrightarrow> (\<forall>r. guard H W kern r) \<and> bs = ud_order"
proof -
  assume a: "blocks_ud H W kern = Inr bs"
  then have f: "find (\<lambda>r. \<not> guard H W kern r) ud_order = None" and b: "bs = ud_order"
    by (auto simp add: blocks_ud_def split: option.splits)
  have "r \<in> set ud_order" for r by (cases r) (simp_all add: ud_order_def)
  with f have "guard H W kern r" for r by (auto simp add: find_None_iff)
  with b show ?thesis by simp
qed

lemma flatten_loop_ok:
  "\<forall>b\<in>set bs. 0 < nC b \<Longrightarrow> flatten_loop bs = Inr (map flat_of bs)"
  by (induction bs) (simp_all add: reshape_flat_def flat_of_def)

lemma flatten_loop_Inr:
  "flatten_loop bs = Inr fs \<Longrightarrow> \<forall>b\<in>set bs. 0 < nC b"
  by (induction bs arbitrary: fs) (auto simp add: bind_eq_Inr reshape_flat_def split: if_splits)

lemma transpose_loop_ok:
  "\<forall>b\<in>set bs. 0 < nC b \<Longrightarrow> i + length bs \<le> length fl \<Longrightarrow>
   transpose_loop i bs fl
     = Inr (take i fl @ map (\<lambda>b. flat_of (transpose23 b)) bs @ drop (i + length bs) fl)"
proof (induction bs arbitrary: i fl)
  case Nil
  then show ?case by simp
next
  case (Cons b bs)
  have r: "reshape_flat (transpose23 b) = Inr (flat_of (transpose23 b))"
    using Cons.prems(1) by (simp add: reshape_flat_def flat_of_def transpose23_def)
  have i: "i < length fl" using Cons.prems(2) by simp
  have "transpose_loop (Suc i) bs (fl[i := flat_of (transpose23 b)])
      = Inr (take (Suc i) (fl[i := flat_of (transpose23 b)]) @ map (\<lambda>b. flat_of (transpose23 b)) bs
             @ drop (Suc i + length bs) (fl[i := flat_of (transpose23 b)]))"
    using Cons.prems by (intro Cons.IH) simp_all
  also have "take (Suc i) (fl[i := flat_of (transpose23 b)]) = take i fl @ [flat_of (transpose23 b)]"
    using i by (simp add: take_Suc_conv_app_nth)
  also have "drop (Suc i + length bs) (fl[i := flat_of (transpose23 b)]) = drop (i + length (b # bs)) fl"
    by simp
  finally show ?case using r i by simp
qed

lemma map2_maps: "map2 g (map f1 xs) (map f2 xs) = map (\<lambda>x. g (f1 x) (f2 x)) xs"
  by (induction xs) simp_all

lemma cat_last_maps:
  "rs \<noteq> [] \<Longrightarrow>
   cat_last (map (\<lambda>r. \<lparr>sC = c, sL = n r, srows = map (f r) ps\<rparr>) rs)
     = \<lparr>sC = c, sL = sum_list (map n rs), srows = map (\<lambda>p. concat (map (\<lambda>r. f r p) rs)) ps\<rparr>"
proof (induction rs)
  case Nil
  then show ?case by simp
next
  case (Cons r rs)
  show ?case
  proof (cases rs)
    case Nil
    then show ?thesis by simp
  next
    case (Cons r' rs')
    then have "rs \<noteq> []" by simp
    from Cons.IH [OF this] show ?thesis
      using Cons by (simp add: cat2_def map2_maps del: zip_map_map)
  qed
qed


lemma wf_plane_rows: "wf_plane H W p \<Longrightarrow> r \<in> set p \<Longrightarrow> length r = W"
  by (simp add: wf_plane_def list_all_iff)

lemma length_concat_rows: "\<forall>r\<in>set p. length r = W \<Longrightarrow> length (concat p) = length p * W"
  by (induction p) simp_all

lemma set_cut3: "set (cut3 a k i xs) \<subseteq> set xs"
  by (auto simp add: cut3_def dest: in_set_takeD in_set_dropD)

lemma blk_rows:
  assumes "\<forall>r\<in>set p. length r = W" "c + k \<le> W" "j < 3" "r \<in> set (blk a c k i j p)"
  shows "length r = band_size W c k j"
proof -
  from assms(4) obtain r' where "r' \<in> set (cut3 a k i p)" "r = cut3 c k j r'"
    by (auto simp add: blk_def)
  moreover from this set_cut3 [of a k i p] have "r' \<in> set p" by blast
  ultimately show ?thesis using assms(1-3) by (simp add: length_cut3)
qed

lemma length_blk:
  "a + k \<le> length p \<Longrightarrow> i < 3 \<Longrightarrow> length (blk a c k i j p) = band_size (length p) a k i"
  by (simp add: blk_def length_cut3)

lemma mset_cut3: "mset (cut3 a k 0 xs) + mset (cut3 a k 1 xs) + mset (cut3 a k 2 xs) = mset xs"
proof -
  have "mset (cut3 a k 0 xs @ cut3 a k 1 xs @ cut3 a k 2 xs) = mset xs"
    by (simp only: cut3_parts)
  then show ?thesis by (simp add: ac_simps)
qed

lemma mset_concat_cols:
  "mset (concat (map (cut3 c k 0) rs)) + mset (concat (map (cut3 c k 1) rs))
     + mset (concat (map (cut3 c k 2) rs)) = mset (concat rs)"
proof (induction rs)
  case Nil
  then show ?case by simp
next
  case (Cons r rs)
  have "mset (concat (map (cut3 c k 0) (r # rs))) + mset (concat (map (cut3 c k 1) (r # rs)))
     + mset (concat (map (cut3 c k 2) (r # rs)))
     = (mset (cut3 c k 0 r) + mset (cut3 c k 1 r) + mset (cut3 c k 2 r))
       + (mset (concat (map (cut3 c k 0) rs)) + mset (concat (map (cut3 c k 1) rs))
          + mset (concat (map (cut3 c k 2) rs)))"
    by (simp add: ac_simps)
  then show ?case by (simp only: mset_cut3 Cons.IH) simp
qed

lemma mset_concat_rows:
  "mset (concat (cut3 a k 0 p)) + mset (concat (cut3 a k 1 p)) + mset (concat (cut3 a k 2 p))
     = mset (concat p)"
proof -
  have "mset (concat (cut3 a k 0 p @ cut3 a k 1 p @ cut3 a k 2 p)) = mset (concat p)"
    by (simp only: cut3_parts)
  then show ?thesis by (simp add: ac_simps)
qed

lemma mset_row_band:
  "mset (concat (blk a c k i 0 p)) + mset (concat (blk a c k i 1 p)) + mset (concat (blk a c k i 2 p))
     = mset (concat (cut3 a k i p))"
  unfolding blk_def by (rule mset_concat_cols)

lemma tr_Cons: "length r = w \<Longrightarrow> tr w (r # rs) = map2 (#) r (tr w rs)"
  by (rule nth_equalityI) (simp_all add: tr_def)

lemma mset_concat_map2_Cons:
  "length r = length xs \<Longrightarrow> mset (concat (map2 (#) r xs)) = mset r + mset (concat xs)"
  by (induction r xs rule: list_induct2) simp_all

lemma length_tr [simp]: "length (tr w b) = w"
  by (simp add: tr_def)

lemma concat_tr_Nil: "concat (tr w []) = []"
  by (simp add: tr_def)

lemma mset_concat_tr:
  "\<forall>r\<in>set b. length r = w \<Longrightarrow> mset (concat (tr w b)) = mset (concat b)"
proof (induction b)
  case Nil
  then show ?case by (simp add: concat_tr_Nil)
next
  case (Cons r b)
  then have "tr w (r # b) = map2 (#) r (tr w b)" by (simp add: tr_Cons)
  moreover have "length r = length (tr w b)" using Cons.prems by simp
  ultimately show ?case using Cons by (simp add: mset_concat_map2_Cons)
qed

lemma tr_map: "\<forall>r\<in>set b. w \<le> length r \<Longrightarrow> tr w (map (map f) b) = map (map f) (tr w b)"
  by (auto simp add: tr_def)

lemma cut3_map: "cut3 a k i (map f xs) = map f (cut3 a k i xs)"
  by (simp add: cut3_def take_map drop_map)

lemma blk_map: "blk a c k i j (map (map f) p) = map (map f) (blk a c k i j p)"
  by (simp add: blk_def cut3_map)

lemma flat_of_block:
  "flat_of (block x kern r)
     = \<lparr>sC = nC x,
        sL = span_len (nH x) (row_span (nH x) kern r) * span_len (nW x) (col_span (nW x) kern r),
        srows = map (\<lambda>p. concat (plane_block (nH x) (nW x) kern r p)) (planes x)\<rparr>"
  by (simp add: flat_of_def block_def slice_hw_def plane_block_def)

lemma flat_of_transpose23_block:
  "flat_of (transpose23 (block x kern r))
     = \<lparr>sC = nC x,
        sL = span_len (nW x) (col_span (nW x) kern r) * span_len (nH x) (row_span (nH x) kern r),
        srows = map (\<lambda>p. concat (tr (span_len (nW x) (col_span (nW x) kern r))
                                    (plane_block (nH x) (nW x) kern r p))) (planes x)\<rparr>"
  by (simp add: flat_of_def transpose23_def block_def slice_hw_def plane_block_def)

lemma nC_block [simp]: "nC (block x kern r) = nC x"
  by (simp add: block_def slice_hw_def)

lemma nine_products:
  fixes a b c :: nat
  shows "a * u + a * v + a * w + (b * u + b * v + b * w) + (c * u + c * v + c * w)
       = (a + b + c) * (u + v + w)"
  by (simp add: algebra_simps)

lemma sum_block_sizes_lr:
  assumes "0 \<le> kern" "kern + 2 \<le> int H" "kern + 2 \<le> int W"
  shows "sum_list (map (\<lambda>r. span_len H (row_span H kern r) * span_len W (col_span W kern r)) lr_order)
       = H * W"
proof -
  have h: "0 \<le> h_center H kern" "h_center H kern + kern \<le> int H"
    using assms unfolding h_center_def by linarith+
  then have le: "nat (h_center H kern) + nat kern \<le> H" using assms by linarith
  have w: "0 \<le> w_center W kern" "w_center W kern + kern \<le> int W"
    using assms unfolding w_center_def by linarith+
  then have lew: "nat (w_center W kern) + nat kern \<le> W" using assms by linarith
  define hs where "hs = band_size H (nat (h_center H kern)) (nat kern)"
  define ws where "ws = band_size W (nat (w_center W kern)) (nat kern)"
  have H: "hs 0 + hs 1 + hs 2 = H" unfolding hs_def using le by (rule band_sizes_sum)
  have W: "ws 0 + ws 1 + ws 2 = W" unfolding ws_def using lew by (rule band_sizes_sum)
  have "sum_list (map (\<lambda>r. span_len H (row_span H kern r) * span_len W (col_span W kern r)) lr_order)
      = sum_list (map (\<lambda>r. hs (row_band r) * ws (col_band r)) lr_order)"
    by (simp add: span_len_row_span [OF assms(1,2)] span_len_col_span [OF assms(1,3)] hs_def ws_def)
  also have "\<dots> = hs 0 * ws 0 + hs 0 * ws 1 + hs 0 * ws 2 + (hs 1 * ws 0 + hs 1 * ws 1 + hs 1 * ws 2)
      + (hs 2 * ws 0 + hs 2 * ws 1 + hs 2 * ws 2)"
    by (simp add: lr_order_def row_band_def col_band_def)
  also have "\<dots> = (hs 0 + hs 1 + hs 2) * (ws 0 + ws 1 + ws 2)" by (rule nine_products)
  finally show ?thesis by (simp only: H W)
qed

lemma rearrange_raw:
  assumes k: "0 \<le> kern" and g: "kern + 2 \<le> int (nH x)" "kern + 2 \<le> int (nW x)" and C: "0 < nC x"
  shows "rearrange_center_blocks x kern =
     Inr \<lparr>kC = nC x, kL = nH x * nW x,
          out1 = chunk (nC x) (nH x * nW x)
                   (concat (map (flat_lr_plane (nH x) (nW x) kern) (planes x))),
          out2 = chunk (nC x) (nH x * nW x)
                   (concat (map (flat_ud_plane (nH x) (nW x) kern) (planes x))),
          out3 = chunk (nC x) (nH x * nW x)
                   (concat (map (\<lambda>p. rev (flat_lr_plane (nH x) (nW x) kern p)) (planes x))),
          out4 = chunk (nC x) (nH x * nW x)
                   (concat (map (\<lambda>p. rev (flat_ud_plane (nH x) (nW x) kern p)) (planes x)))\<rparr>"
proof -
  have all: "\<forall>r. guard (nH x) (nW x) kern r" using g by (simp add: all_guards_iff)
  have f1: "flatten_loop (map (block x kern) lr_order) = Inr (map flat_of (map (block x kern) lr_order))"
    by (rule flatten_loop_ok) (simp add: C)
  have f2: "transpose_loop 0 (map (block x kern) ud_order) (map flat_of (map (block x kern) lr_order))
      = Inr (map (\<lambda>b. flat_of (transpose23 b)) (map (block x kern) ud_order))"
    using transpose_loop_ok [of "map (block x kern) ud_order" 0 "map flat_of (map (block x kern) lr_order)"] C
    by (simp add: lr_order_def ud_order_def)
  have c1: "cat_last (map flat_of (map (block x kern) lr_order))
      = \<lparr>sC = nC x, sL = nH x * nW x, srows = map (flat_lr_plane (nH x) (nW x) kern) (planes x)\<rparr>"
  proof -
    have "cat_last (map flat_of (map (block x kern) lr_order))
      = cat_last (map (\<lambda>r. \<lparr>sC = nC x,
           sL = span_len (nH x) (row_span (nH x) kern r) * span_len (nW x) (col_span (nW x) kern r),
           srows = map (\<lambda>p. concat (plane_block (nH x) (nW x) kern r p)) (planes x)\<rparr>) lr_order)"
      by (simp add: flat_of_block o_def)
    also have "\<dots> = \<lparr>sC = nC x,
         sL = sum_list (map (\<lambda>r. span_len (nH x) (row_span (nH x) kern r)
                                  * span_len (nW x) (col_span (nW x) kern r)) lr_order),
         srows = map (\<lambda>p. concat (map (\<lambda>r. concat (plane_block (nH x) (nW x) kern r p)) lr_order))
                     (planes x)\<rparr>"
      by (rule cat_last_maps) (simp add: lr_order_def)
    finally show ?thesis
      by (simp add: sum_block_sizes_lr [OF k g] flat_lr_plane_def)
  qed
  obtain n where c2: "cat_last (map (\<lambda>b. flat_of (transpose23 b)) (map (block x kern) ud_order))
      = \<lparr>sC = nC x, sL = n, srows = map (flat_ud_plane (nH x) (nW x) kern) (planes x)\<rparr>"
  proof -
    have "cat_last (map (\<lambda>b. flat_of (transpose23 b)) (map (block x kern) ud_order))
      = cat_last (map (\<lambda>r. \<lparr>sC = nC x,
           sL = span_len (nW x) (col_span (nW x) kern r) * span_len (nH x) (row_span (nH x) kern r),
           srows = map (\<lambda>p. concat (tr (span_len (nW x) (col_span (nW x) kern r))
                                       (plane_block (nH x) (nW x) kern r p))) (planes x)\<rparr>) ud_order)"
      by (simp add: flat_of_transpose23_block o_def)
    also have "\<dots> = \<lparr>sC = nC x,
         sL = sum_list (map (\<lambda>r. span_len (nW x) (col_span (nW x) kern r)
                                  * span_len (nH x) (row_span (nH x) kern r)) ud_order),
         srows = map (\<lambda>p. concat (map (\<lambda>r. concat (tr (span_len (nW x) (col_span (nW x) kern r))
                                       (plane_block (nH x) (nW x) kern r p))) ud_order))
                     (planes x)\<rparr>"
      by (rule cat_last_maps) (simp add: ud_order_def)
    finally show ?thesis using that by (simp add: flat_ud_plane_def)
  qed
  have L: "0 < nH x * nW x" using k g by (simp add: zero_less_mult_iff) 
  show ?thesis
    unfolding rearrange_center_blocks_def Let_def blocks_all_guards [OF all] bind_Inr f1 f2 c1 c2
    using L C
    by (simp add: stack_view_def Let_def flip_def o_def)
qed


lemma flat_lr_plane_blk:
  assumes "0 \<le> kern" "kern + 2 \<le> int H" "kern + 2 \<le> int W"
  shows "flat_lr_plane H W kern p =
     concat (map (\<lambda>r. concat (blk (nat (h_center H kern)) (nat (w_center W kern)) (nat kern)
                                   (row_band r) (col_band r) p)) lr_order)"
  by (simp add: flat_lr_plane_def plane_block_blk [OF assms])

lemma flat_ud_plane_blk:
  assumes "0 \<le> kern" "kern + 2 \<le> int H" "kern + 2 \<le> int W"
  shows "flat_ud_plane H W kern p =
     concat (map (\<lambda>r. concat (tr (band_size W (nat (w_center W kern)) (nat kern) (col_band r))
                                  (blk (nat (h_center H kern)) (nat (w_center W kern)) (nat kern)
                                       (row_band r) (col_band r) p))) ud_order)"
  by (simp add: flat_ud_plane_def plane_block_blk [OF assms] span_len_col_span [OF assms(1,3)])

lemma mset_nine_blocks:
  "mset (concat (blk a c k 0 0 p)) + mset (concat (blk a c k 0 1 p)) + mset (concat (blk a c k 0 2 p))
   + (mset (concat (blk a c k 1 0 p)) + mset (concat (blk a c k 1 1 p)) + mset (concat (blk a c k 1 2 p)))
   + (mset (concat (blk a c k 2 0 p)) + mset (concat (blk a c k 2 1 p)) + mset (concat (blk a c k 2 2 p)))
   = mset (concat p)"
  by (simp only: mset_row_band mset_concat_rows)

lemma mset_flat_lr_plane:
  assumes "0 \<le> kern" "kern + 2 \<le> int H" "kern + 2 \<le> int W"
  shows "mset (flat_lr_plane H W kern p) = mset (concat p)"
proof -
  have "mset (flat_lr_plane H W kern p)
      = mset (concat (blk (nat (h_center H kern)) (nat (w_center W kern)) (nat kern) 0 0 p))
      + mset (concat (blk (nat (h_center H kern)) (nat (w_center W kern)) (nat kern) 0 1 p))
      + mset (concat (blk (nat (h_center H kern)) (nat (w_center W kern)) (nat kern) 0 2 p))
      + (mset (concat (blk (nat (h_center H kern)) (nat (w_center W kern)) (nat kern) 1 0 p))
      + mset (concat (blk (nat (h_center H kern)) (nat (w_center W kern)) (nat kern) 1 1 p))
      + mset (concat (blk (nat (h_center H kern)) (nat (w_center W kern)) (nat kern) 1 2 p)))
      + (mset (concat (blk (nat (h_center H kern)) (nat (w_center W kern)) (nat kern) 2 0 p))
      + mset (concat (blk (nat (h_center H kern)) (nat (w_center W kern)) (nat kern) 2 1 p))
      + mset (concat (blk (nat (h_center H kern)) (nat (w_center W kern)) (nat kern) 2 2 p)))"
    by (simp add: flat_lr_plane_blk [OF assms] lr_order_def row_band_def col_band_def ac_simps)
  then show ?thesis by (simp only: mset_nine_blocks)
qed

lemma mset_flat_ud_plane:
  assumes "0 \<le> kern" "kern + 2 \<le> int H" "kern + 2 \<le> int W" and wf: "\<forall>r\<in>set p. length r = W"
  shows "mset (flat_ud_plane H W kern p) = mset (concat p)"
proof -
  have w: "0 \<le> w_center W kern" "w_center W kern + kern \<le> int W"
    using assms unfolding w_center_def by linarith+
  then have lew: "nat (w_center W kern) + nat kern \<le> W" using assms by linarith
  have t: "mset (concat (tr (band_size W (nat (w_center W kern)) (nat kern) j)
                 (blk (nat (h_center H kern)) (nat (w_center W kern)) (nat kern) i j p)))
         = mset (concat (blk (nat (h_center H kern)) (nat (w_center W kern)) (nat kern) i j p))"
    if "j < 3" for i j
    by (rule mset_concat_tr) (use blk_rows [OF wf lew that] in blast)
  have "mset (flat_ud_plane H W kern p)
      = mset (concat (blk (nat (h_center H kern)) (nat (w_center W kern)) (nat kern) 0 0 p))
      + mset (concat (blk (nat (h_center H kern)) (nat (w_center W kern)) (nat kern) 0 1 p))
      + mset (concat (blk (nat (h_center H kern)) (nat (w_center W kern)) (nat kern) 0 2 p))
      + (mset (concat (blk (nat (h_center H kern)) (nat (w_center W kern)) (nat kern) 1 0 p))
      + mset (concat (blk (nat (h_center H kern)) (nat (w_center W kern)) (nat kern) 1 1 p))
      + mset (concat (blk (nat (h_center H kern)) (nat (w_center W kern)) (nat kern) 1 2 p)))
      + (mset (concat (blk (nat (h_center H kern)) (nat (w_center W kern)) (nat kern) 2 0 p))
      + mset (concat (blk (nat (h_center H kern)) (nat (w_center W kern)) (nat kern) 2 1 p))
      + mset (concat (blk (nat (h_center H kern)) (nat (w_center W kern)) (nat kern) 2 2 p)))"
    by (simp add: flat_ud_plane_blk [OF assms(1-3)] ud_order_def row_band_def col_band_def t ac_simps)
  then show ?thesis by (simp only: mset_nine_blocks)
qed

lemma length_flat_lr_plane:
  assumes "0 \<le> kern" "kern + 2 \<le> int H" "kern + 2 \<le> int W" and wf: "wf_plane H W p"
  shows "length (flat_lr_plane H W kern p) = H * W"
proof -
  have "length (flat_lr_plane H W kern p) = length (concat p)"
    using mset_flat_lr_plane [OF assms(1-3), of p] by (metis size_mset)
  also have "\<dots> = H * W"
    using wf length_concat_rows [of p W] by (simp add: wf_plane_def list_all_iff)
  finally show ?thesis .
qed

lemma length_flat_ud_plane:
  assumes "0 \<le> kern" "kern + 2 \<le> int H" "kern + 2 \<le> int W" and wf: "wf_plane H W p"
  shows "length (flat_ud_plane H W kern p) = H * W"
proof -
  have r: "\<forall>r\<in>set p. length r = W" using wf by (simp add: wf_plane_def list_all_iff)
  have "length (flat_ud_plane H W kern p) = length (concat p)"
    using mset_flat_ud_plane [OF assms(1-3) r] by (metis size_mset)
  also have "\<dots> = H * W"
    using wf length_concat_rows [of p W] by (simp add: wf_plane_def list_all_iff)
  finally show ?thesis .
qed

lemma rearrange_ok:
  assumes k: "0 \<le> kern" and g: "kern + 2 \<le> int (nH x)" "kern + 2 \<le> int (nW x)" and C: "0 < nC x"
    and wf: "wf_grid x"
  shows "rearrange_center_blocks x kern =
     Inr \<lparr>kC = nC x, kL = nH x * nW x,
          out1 = map (flat_lr_plane (nH x) (nW x) kern) (planes x),
          out2 = map (flat_ud_plane (nH x) (nW x) kern) (planes x),
          out3 = map (\<lambda>p. rev (flat_lr_plane (nH x) (nW x) kern p)) (planes x),
          out4 = map (\<lambda>p. rev (flat_ud_plane (nH x) (nW x) kern p)) (planes x)\<rparr>"
proof -
  have p: "wf_plane (nH x) (nW x) p" if "p \<in> set (planes x)" for p
    using wf that by (simp add: wf_grid_def list_all_iff)
  have n: "length (planes x) = nC x" using wf by (simp add: wf_grid_def)
  have c: "chunk (nC x) (nH x * nW x) (concat (map f (planes x))) = map f (planes x)"
    if "\<And>p. p \<in> set (planes x) \<Longrightarrow> length (f p) = nH x * nW x" for f :: "'a list list \<Rightarrow> 'a list"
    by (rule chunk_concat') (use n that in auto)
  show ?thesis
    unfolding rearrange_raw [OF k g C]
    by (simp add: c length_flat_lr_plane [OF k g p] length_flat_ud_plane [OF k g p])
qed

lemma rearrange_Inr:
  assumes "rearrange_center_blocks x kern = Inr s"
  shows "kern + 2 \<le> int (nH x) \<and> kern + 2 \<le> int (nW x) \<and> 0 < nC x"
proof -
  from assms obtain bud fl where
    b: "blocks_ud (nH x) (nW x) kern = Inr bud" and
    f: "flatten_loop (map (block x kern) (blocks_lr (nH x) (nW x) kern)) = Inr fl"
    by (auto simp add: rearrange_center_blocks_def Let_def bind_eq_Inr)
  from blocks_ud_Inr [OF b] have all: "\<forall>r. guard (nH x) (nW x) kern r" by simp
  from flatten_loop_Inr [OF f] have "0 < nC x"
    by (simp add: blocks_all_guards [OF all] lr_order_def)
  with all show ?thesis by (simp add: all_guards_iff)
qed

lemma slice_map: "slice s (map f xs) = map f (slice s xs)"
  by (simp add: slice_def take_map drop_map)

lemma plane_block_map:
  "plane_block H W kern r (map (map f) q) = map (map f) (plane_block H W kern r q)"
  by (simp add: plane_block_def slice_map)

lemma flat_lr_plane_map: "flat_lr_plane H W kern (map (map f) q) = map f (flat_lr_plane H W kern q)"
  by (simp add: flat_lr_plane_def plane_block_map map_concat o_def)

lemma plane_block_rows:
  assumes "\<forall>r\<in>set q. length r = W" "r \<in> set (plane_block H W kern g q)"
  shows "length r = span_len W (col_span W kern g)"
proof -
  from assms(2) obtain r' where r': "r' \<in> set (slice (row_span H kern g) q)"
    and r: "r = slice (col_span W kern g) r'"
    by (auto simp add: plane_block_def)
  from r' have "r' \<in> set q" by (auto simp add: slice_def dest: in_set_takeD in_set_dropD)
  with assms(1) r show ?thesis by (simp add: length_slice)
qed

lemma flat_ud_plane_map:
  assumes "\<forall>r\<in>set q. length r = W"
  shows "flat_ud_plane H W kern (map (map f) q) = map f (flat_ud_plane H W kern q)"
proof -
  have "tr (span_len W (col_span W kern g)) (map (map f) (plane_block H W kern g q))
      = map (map f) (tr (span_len W (col_span W kern g)) (plane_block H W kern g q))" for g
    by (rule tr_map) (use plane_block_rows [OF assms] in auto)
  then show ?thesis
    by (simp add: flat_ud_plane_def plane_block_map map_concat o_def)
qed

lemma index_plane_rows: "\<forall>r\<in>set (index_plane H W). length r = W"
  by (auto simp add: index_plane_def)

lemma read_index_plane:
  assumes "wf_plane H W p"
  shows "map (map (\<lambda>(i, j). p ! i ! j)) (index_plane H W) = p"
proof (rule nth_equalityI)
  show "length (map (map (\<lambda>(i, j). p ! i ! j)) (index_plane H W)) = length p"
    using assms by (simp add: index_plane_def wf_plane_def)
next
  fix i assume "i < length (map (map (\<lambda>(i, j). p ! i ! j)) (index_plane H W))"
  then have i: "i < H" by (simp add: index_plane_def)
  then have "p ! i \<in> set p" using assms by (simp add: wf_plane_def)
  then have "length (p ! i) = W" using assms by (rule wf_plane_rows [rotated])
  then have "map (\<lambda>j. p ! i ! j) [0..<W] = p ! i" by (metis map_nth)
  then show "map (map (\<lambda>(i, j). p ! i ! j)) (index_plane H W) ! i = p ! i"
    using i by (simp add: index_plane_def o_def)
qed

lemma flat_lr_plane_cells:
  "wf_plane H W p \<Longrightarrow> flat_lr_plane H W kern p = read_cells p (cells_lr H W kern)"
  unfolding read_cells_def cells_lr_def
  by (simp only: flat_lr_plane_map [symmetric] read_index_plane)

lemma flat_ud_plane_cells:
  "wf_plane H W p \<Longrightarrow> flat_ud_plane H W kern p = read_cells p (cells_ud H W kern)"
  unfolding read_cells_def cells_ud_def
  by (simp only: flat_ud_plane_map [OF index_plane_rows, symmetric] read_index_plane)

lemma concat_index_plane: "concat (index_plane H W) = List.product [0..<H] [0..<W]"
  by (simp add: index_plane_def product_concat_map)

lemma cells_lr_perm:
  assumes "0 \<le> kern" "kern + 2 \<le> int H" "kern + 2 \<le> int W"
  shows "distinct (cells_lr H W kern) \<and> set (cells_lr H W kern) = {..<H} \<times> {..<W}
         \<and> length (cells_lr H W kern) = H * W"
proof -
  have m: "mset (cells_lr H W kern) = mset (List.product [0..<H] [0..<W])"
    unfolding cells_lr_def by (simp only: mset_flat_lr_plane [OF assms] concat_index_plane)
  have "distinct (List.product [0..<H] [0..<W])" by (simp add: distinct_product)
  with m have "distinct (cells_lr H W kern)" by (metis mset_eq_imp_distinct_iff)
  moreover from m have "set (cells_lr H W kern) = set (List.product [0..<H] [0..<W])"
    by (rule mset_eq_setD)
  moreover from m have "length (cells_lr H W kern) = length (List.product [0..<H] [0..<W])"
    by (rule mset_eq_length)
  ultimately show ?thesis by (auto simp add: lessThan_atLeast0)
qed

lemma cells_ud_perm:
  assumes "0 \<le> kern" "kern + 2 \<le> int H" "kern + 2 \<le> int W"
  shows "distinct (cells_ud H W kern) \<and> set (cells_ud H W kern) = {..<H} \<times> {..<W}
         \<and> length (cells_ud H W kern) = H * W"
proof -
  have m: "mset (cells_ud H W kern) = mset (List.product [0..<H] [0..<W])"
    unfolding cells_ud_def
    by (simp only: mset_flat_ud_plane [OF assms index_plane_rows] concat_index_plane)
  have "distinct (List.product [0..<H] [0..<W])" by (simp add: distinct_product)
  with m have "distinct (cells_ud H W kern)" by (metis mset_eq_imp_distinct_iff)
  moreover from m have "set (cells_ud H W kern) = set (List.product [0..<H] [0..<W])"
    by (rule mset_eq_setD)
  moreover from m have "length (cells_ud H W kern) = length (List.product [0..<H] [0..<W])"
    by (rule mset_eq_length)
  ultimately show ?thesis by (auto simp add: lessThan_atLeast0)
qed

lemma read_cells_rev: "rev (read_cells p cs) = read_cells p (rev cs)"
  by (simp add: read_cells_def rev_map)

lemma row_span_cut_le:
  assumes "0 \<le> kern" "kern \<le> int H"
  shows "slice (row_span H kern r) p = cut3 (nat (h_center H kern)) (nat kern) (row_band r) p"
proof -
  have h: "0 \<le> h_center H kern" using assms unfolding h_center_def by linarith
  have n: "nat (h_center H kern + kern) - nat (h_center H kern) = nat kern"
    "nat (h_center H kern + kern) = nat (h_center H kern) + nat kern"
    using h assms by linarith+
  show ?thesis
    using h assms
    by (simp add: row_span_def row_band_def Let_def cut3_def slice_None_Some slice_Some_Some slice_Some_None n)
qed

lemma col_span_cut_le:
  assumes "0 \<le> kern" "kern \<le> int W"
  shows "slice (col_span W kern r) p = cut3 (nat (w_center W kern)) (nat kern) (col_band r) p"
proof -
  have h: "0 \<le> w_center W kern" using assms unfolding w_center_def by linarith
  have n: "nat (w_center W kern + kern) - nat (w_center W kern) = nat kern"
    "nat (w_center W kern + kern) = nat (w_center W kern) + nat kern"
    using h assms by linarith+
  show ?thesis
    using h assms
    by (simp add: col_span_def col_band_def Let_def cut3_def slice_None_Some slice_Some_Some slice_Some_None n)
qed

lemma set_cut3_upt:
  assumes "a + k \<le> n"
  shows "set (cut3 a k i [0..<n]) = (if i = 0 then {0..<a} else if i = 1 then {a..<a + k} else {a + k..<n})"
proof -
  have "take k (drop a [0..<n]) = [a..<a + k]"
    using assms by (simp add: take_upt drop_upt)
  moreover have "take a [0..<n] = [0..<a]" using assms by (simp add: take_upt)
  moreover have "drop (a + k) [0..<n] = [a + k..<n]" by (simp add: drop_upt)
  ultimately show ?thesis by (simp add: cut3_def)
qed

lemma region_cells_bands:
  assumes "0 \<le> kern" "kern \<le> int H" "kern \<le> int W"
  shows "region_cells H W kern r
       = set (cut3 (nat (h_center H kern)) (nat kern) (row_band r) [0..<H])
       \<times> set (cut3 (nat (w_center W kern)) (nat kern) (col_band r) [0..<W])"
proof -
  have e: "slice (col_span W kern r) = cut3 (nat (w_center W kern)) (nat kern) (col_band r)"
    by (rule ext) (rule col_span_cut_le [OF assms(1,3)])
  have "plane_block H W kern r (index_plane H W)
      = map (\<lambda>i. map (\<lambda>j. (i, j)) (cut3 (nat (w_center W kern)) (nat kern) (col_band r) [0..<W]))
            (cut3 (nat (h_center H kern)) (nat kern) (row_band r) [0..<H])"
    unfolding plane_block_def e row_span_cut_le [OF assms(1,2)] index_plane_def
    by (simp add: cut3_map o_def)
  then show ?thesis by (auto simp add: region_cells_def)
qed

lemma guard_bands:
  assumes "1 \<le> kern" "kern \<le> int H" "kern \<le> int W"
  shows "guard H W kern r \<longleftrightarrow>
         set (cut3 (nat (h_center H kern)) (nat kern) (row_band r) [0..<H]) \<noteq> {}
       \<and> set (cut3 (nat (w_center W kern)) (nat kern) (col_band r) [0..<W]) \<noteq> {}"
proof -
  have h: "0 \<le> h_center H kern" "h_center H kern + kern \<le> int H"
    using assms unfolding h_center_def by linarith+
  then have le: "nat (h_center H kern) + nat kern \<le> H" using assms by linarith
  have w: "0 \<le> w_center W kern" "w_center W kern + kern \<le> int W"
    using assms unfolding w_center_def by linarith+
  then have lew: "nat (w_center W kern) + nat kern \<le> W" using assms by linarith
  have k: "0 < nat kern" using assms by simp
  have hb: "0 < int H - (h_center H kern + kern) \<longleftrightarrow> nat (h_center H kern) + nat kern < H"
    using h assms by linarith
  have wb: "0 < int W - (w_center W kern + kern) \<longleftrightarrow> nat (w_center W kern) + nat kern < W"
    using w assms by linarith
  have ht: "0 < h_center H kern \<longleftrightarrow> 0 < nat (h_center H kern)"
    and wt: "0 < w_center W kern \<longleftrightarrow> 0 < nat (w_center W kern)" by simp_all
  show ?thesis
    unfolding guard_def Let_def hb wb ht wt set_cut3_upt [OF le] set_cut3_upt [OF lew]
    using k by (cases r) (simp_all add: row_band_def col_band_def)
qed

lemma cut3_upt_disjoint:
  assumes "a + k \<le> n" "i < 3" "j < 3" "i \<noteq> j"
  shows "set (cut3 a k i [0..<n]) \<inter> set (cut3 a k j [0..<n]) = {}"
  unfolding set_cut3_upt [OF assms(1)] using assms(2-4) by auto

lemma cut3_upt_cover:
  assumes "a + k \<le> n" "m < n"
  shows "\<exists>i<3. m \<in> set (cut3 a k i [0..<n])"
proof -
  have "m \<in> set (cut3 a k 0 [0..<n] @ cut3 a k 1 [0..<n] @ cut3 a k 2 [0..<n])"
    unfolding cut3_parts using assms(2) by simp
  then have "m \<in> set (cut3 a k 0 [0..<n]) \<or> m \<in> set (cut3 a k 1 [0..<n])
      \<or> m \<in> set (cut3 a k 2 [0..<n])" by simp
  then show ?thesis
  proof (elim disjE)
    assume "m \<in> set (cut3 a k 0 [0..<n])"
    then show ?thesis by (intro exI [of _ 0]) simp
  next
    assume "m \<in> set (cut3 a k 1 [0..<n])"
    then show ?thesis by (intro exI [of _ 1]) simp
  next
    assume "m \<in> set (cut3 a k 2 [0..<n])"
    then show ?thesis by (intro exI [of _ 2]) simp
  qed
qed

lemma cut3_upt_bound: "m \<in> set (cut3 a k i [0..<n]) \<Longrightarrow> m < n"
  using set_cut3 [of a k i "[0..<n]"] by auto

lemma bands_inj: "row_band r = row_band r' \<Longrightarrow> col_band r = col_band r' \<Longrightarrow> r = r'"
  by (cases r; cases r') (simp_all add: row_band_def col_band_def)

lemma bands_onto: "i < 3 \<Longrightarrow> j < 3 \<Longrightarrow> \<exists>r. row_band r = i \<and> col_band r = j"
proof -
  assume "i < 3" "j < 3"
  then have i: "i = 0 \<or> i = 1 \<or> i = 2" and j: "j = 0 \<or> j = 1 \<or> j = 2" by auto
  have "row_band TopLeft = 0 \<and> col_band TopLeft = 0" "row_band Top = 0 \<and> col_band Top = 1"
    "row_band TopRight = 0 \<and> col_band TopRight = 2" "row_band Left = 1 \<and> col_band Left = 0"
    "row_band Center = 1 \<and> col_band Center = 1" "row_band Right = 1 \<and> col_band Right = 2"
    "row_band BottomLeft = 2 \<and> col_band BottomLeft = 0" "row_band Bottom = 2 \<and> col_band Bottom = 1"
    "row_band BottomRight = 2 \<and> col_band BottomRight = 2"
    by (simp_all add: row_band_def col_band_def)
  with i j show ?thesis by metis
qed

lemma set_blocks_lr: "set (blocks_lr H W kern) = {r. guard H W kern r}"
proof -
  have "r \<in> set lr_order" for r by (cases r) (simp_all add: lr_order_def)
  then show ?thesis by (auto simp add: blocks_lr_def)
qed

lemma band3_maps: "band3 (map f xs) (map g xs) (map h xs) = map (\<lambda>x. f x @ g x @ h x) xs"
  by (simp add: band3_def zip3_map)

lemma band3_map_map:
  "band3 (map (map f) a) (map (map f) b) (map (map f) c) = map (map f) (band3 a b c)"
proof -
  have "zip (map (map f) a) (zip (map (map f) b) (map (map f) c))
      = map (\<lambda>(u, v, w). (map f u, map f v, map f w)) (zip a (zip b c))"
    by (simp add: zip_map_map split_def)
  then show ?thesis by (simp add: band3_def split_def)
qed

lemma asm_lr_map: "asm_lr ht hm hb wl wm wr (map f r) = map (map f) (asm_lr ht hm hb wl wm wr r)"
  by (simp add: asm_lr_def Let_def drop_map chunk_map band3_map_map)

lemma band_inv:
  assumes h: "length rows = h" and w: "\<forall>r\<in>set rows. length r = wl + wm + wr"
  shows "band3 (chunk h wl (concat (map (cut3 wl wm 0) rows) @ concat (map (cut3 wl wm 1) rows)
                              @ concat (map (cut3 wl wm 2) rows) @ rest))
               (chunk h wm (drop (h * wl) (concat (map (cut3 wl wm 0) rows)
                              @ concat (map (cut3 wl wm 1) rows)
                              @ concat (map (cut3 wl wm 2) rows) @ rest)))
               (chunk h wr (drop (h * wl + h * wm) (concat (map (cut3 wl wm 0) rows)
                              @ concat (map (cut3 wl wm 1) rows)
                              @ concat (map (cut3 wl wm 2) rows) @ rest)))
         = rows"
proof -
  have l0: "\<forall>r\<in>set (map (cut3 wl wm 0) rows). length r = wl"
    and l1: "\<forall>r\<in>set (map (cut3 wl wm 1) rows). length r = wm"
    and l2: "\<forall>r\<in>set (map (cut3 wl wm 2) rows). length r = wr"
    using w by (auto simp add: cut3_def)
  have n0: "length (concat (map (cut3 wl wm 0) rows)) = h * wl"
    and n1: "length (concat (map (cut3 wl wm 1) rows)) = h * wm"
    using length_concat_rows [OF l0] length_concat_rows [OF l1] h by simp_all
  have c0: "chunk h wl (concat (map (cut3 wl wm 0) rows) @ concat (map (cut3 wl wm 1) rows)
                              @ concat (map (cut3 wl wm 2) rows) @ rest) = map (cut3 wl wm 0) rows"
    by (rule chunk_concat) (use h l0 in simp_all)
  have d1: "drop (h * wl) (concat (map (cut3 wl wm 0) rows) @ concat (map (cut3 wl wm 1) rows)
                              @ concat (map (cut3 wl wm 2) rows) @ rest)
          = concat (map (cut3 wl wm 1) rows) @ concat (map (cut3 wl wm 2) rows) @ rest"
    using n0 by simp
  have d2: "drop (h * wl + h * wm) (concat (map (cut3 wl wm 0) rows) @ concat (map (cut3 wl wm 1) rows)
                              @ concat (map (cut3 wl wm 2) rows) @ rest)
          = concat (map (cut3 wl wm 2) rows) @ rest"
    using n0 n1 by (simp add: drop_append)
  have c1: "chunk h wm (concat (map (cut3 wl wm 1) rows) @ concat (map (cut3 wl wm 2) rows) @ rest)
          = map (cut3 wl wm 1) rows"
    by (rule chunk_concat) (use h l1 in simp_all)
  have c2: "chunk h wr (concat (map (cut3 wl wm 2) rows) @ rest) = map (cut3 wl wm 2) rows"
    by (rule chunk_concat) (use h l2 in simp_all)
  show ?thesis
    unfolding c0 d1 d2 c1 c2 band3_maps cut3_parts by simp
qed


lemma band_at:
  assumes n: "length pre = n" and h: "length rows = h"
    and w: "\<forall>r\<in>set rows. length r = wl + wm + wr"
  shows "band3 (chunk h wl (drop n (pre @ concat (map (cut3 wl wm 0) rows)
                              @ concat (map (cut3 wl wm 1) rows)
                              @ concat (map (cut3 wl wm 2) rows) @ rest)))
               (chunk h wm (drop (n + h * wl) (pre @ concat (map (cut3 wl wm 0) rows)
                              @ concat (map (cut3 wl wm 1) rows)
                              @ concat (map (cut3 wl wm 2) rows) @ rest)))
               (chunk h wr (drop (n + h * wl + h * wm) (pre @ concat (map (cut3 wl wm 0) rows)
                              @ concat (map (cut3 wl wm 1) rows)
                              @ concat (map (cut3 wl wm 2) rows) @ rest)))
         = rows"
proof -
  have d: "drop (n + m) (pre @ Y) = drop m Y" for m and Y :: "'a list"
    using n by simp
  have d0: "drop n (pre @ Y) = Y" for Y :: "'a list"
    using n by simp
  have e: "n + h * wl + h * wm = n + (h * wl + h * wm)" by simp
  show ?thesis
    unfolding e d d0 by (rule band_inv [OF h w])
qed

lemma length_flat_band:
  assumes "length rows = h" "\<forall>r\<in>set rows. length r = wl + wm + wr"
  shows "length (concat (map (cut3 wl wm 0) rows) @ concat (map (cut3 wl wm 1) rows)
                 @ concat (map (cut3 wl wm 2) rows)) = h * (wl + wm + wr)"
proof -
  have l0: "\<forall>r\<in>set (map (cut3 wl wm 0) rows). length r = wl"
    and l1: "\<forall>r\<in>set (map (cut3 wl wm 1) rows). length r = wm"
    and l2: "\<forall>r\<in>set (map (cut3 wl wm 2) rows). length r = wr"
    using assms(2) by (auto simp add: cut3_def)
  show ?thesis
    using length_concat_rows [OF l0] length_concat_rows [OF l1] length_concat_rows [OF l2] assms(1)
    by (simp add: algebra_simps)
qed

lemma asm_lr_flat:
  assumes len: "length p = a + k + hb" and rows: "\<forall>r\<in>set p. length r = c + k + wr"
  shows "asm_lr a k hb c k wr
           (concat (map (\<lambda>r. concat (blk a c k (row_band r) (col_band r) p)) lr_order)) = p"
proof -
  define R where "R i = cut3 a k i p" for i
  define F where "F i = concat (map (cut3 c k 0) (R i)) @ concat (map (cut3 c k 1) (R i))
                        @ concat (map (cut3 c k 2) (R i))" for i
  have X: "concat (map (\<lambda>r. concat (blk a c k (row_band r) (col_band r) p)) lr_order)
         = F 0 @ F 1 @ F 2"
    by (simp add: lr_order_def row_band_def col_band_def blk_def F_def R_def)
  have lR: "length (R 0) = a" "length (R 1) = k" "length (R 2) = hb"
    using len by (simp_all add: R_def cut3_def)
  have rR: "\<forall>r\<in>set (R i). length r = c + k + wr" for i
    using rows set_cut3 [of a k i p] by (auto simp add: R_def)
  have lF: "length (F 0) = a * (c + k + wr)" "length (F 1) = k * (c + k + wr)"
    unfolding F_def using length_flat_band [OF lR(1) rR] length_flat_band [OF lR(2) rR] by simp_all
  have b0: "band3 (chunk a c (F 0 @ F 1 @ F 2))
                  (chunk a k (drop (a * c) (F 0 @ F 1 @ F 2)))
                  (chunk a wr (drop (a * c + a * k) (F 0 @ F 1 @ F 2))) = R 0"
    using band_inv [OF lR(1) rR, of "F 1 @ F 2"] by (simp add: F_def)
  have b1: "band3 (chunk k c (drop (a * (c + k + wr)) (F 0 @ F 1 @ F 2)))
                  (chunk k k (drop (a * (c + k + wr) + k * c) (F 0 @ F 1 @ F 2)))
                  (chunk k wr (drop (a * (c + k + wr) + k * c + k * k) (F 0 @ F 1 @ F 2))) = R 1"
    using band_at [OF lF(1) lR(2) rR, of "F 2"] by (simp add: F_def)
  have "length (F 0 @ F 1) = a * (c + k + wr) + k * (c + k + wr)" using lF by simp
  from band_at [OF this lR(3) rR, of "[]"]
  have b2: "band3 (chunk hb c (drop (a * (c + k + wr) + k * (c + k + wr)) (F 0 @ F 1 @ F 2)))
                  (chunk hb k (drop (a * (c + k + wr) + k * (c + k + wr) + hb * c) (F 0 @ F 1 @ F 2)))
                  (chunk hb wr (drop (a * (c + k + wr) + k * (c + k + wr) + hb * c + hb * k)
                                  (F 0 @ F 1 @ F 2))) = R 2"
    by (simp add: F_def)
  have "R 0 @ R 1 @ R 2 = p" unfolding R_def by (rule cut3_parts)
  then show ?thesis
    unfolding X asm_lr_def Let_def b0 b1 b2 .
qed

lemma centre_of_double:
  assumes "0 \<le> kern"
  shows "nat (h_center (nat (2 * kern)) kern) = nat kern div 2"
    and "nat (w_center (nat (2 * kern)) kern) = nat kern div 2"
proof -
  have "int (nat (2 * kern)) - kern = kern" using assms by simp
  then have "h_center (nat (2 * kern)) kern = kern div 2" "w_center (nat (2 * kern)) kern = kern div 2"
    by (simp_all add: h_center_def w_center_def)
  moreover have "nat (kern div 2) = nat kern div 2" using assms by (simp add: nat_div_distrib)
  ultimately show "nat (h_center (nat (2 * kern)) kern) = nat kern div 2"
    and "nat (w_center (nat (2 * kern)) kern) = nat kern div 2" by simp_all
qed

lemma rec_lr_flat_lr:
  assumes k: "2 \<le> kern" and wf: "wf_plane (nat (2 * kern)) (nat (2 * kern)) p"
  shows "rec_lr_plane (nat kern) (flat_lr_plane (nat (2 * kern)) (nat (2 * kern)) kern p) = p"
proof -
  have k0: "0 \<le> kern" and g: "kern + 2 \<le> int (nat (2 * kern))" using k by simp_all
  have n: "nat (2 * kern) = nat kern div 2 + nat kern + (nat kern - nat kern div 2)"
    using k by linarith
  have len: "length p = nat kern div 2 + nat kern + (nat kern - nat kern div 2)"
    using wf n by (simp add: wf_plane_def)
  have rows: "\<forall>r\<in>set p. length r = nat kern div 2 + nat kern + (nat kern - nat kern div 2)"
    using wf n by (simp add: wf_plane_def list_all_iff)
  show ?thesis
    unfolding rec_lr_plane_def flat_lr_plane_blk [OF k0 g g] centre_of_double [OF k0]
    by (rule asm_lr_flat [OF len rows])
qed

lemma rec_lr_plane_map: "rec_lr_plane k (map f r) = map (map f) (rec_lr_plane k r)"
  by (simp add: rec_lr_plane_def asm_lr_map)

lemma map2_same: "map2 f xs xs = map (\<lambda>x. f x x) xs"
  by (induction xs) simp_all

lemma grid_eqI:
  "nC a = nC b \<Longrightarrow> nH a = nH b \<Longrightarrow> nW a = nW b \<Longrightarrow> planes a = planes b \<Longrightarrow> a = (b :: 'a grid)"
  by simp

lemma band3_wf:
  assumes "length a = h" "length b = h" "length c = h"
    and "\<forall>r\<in>set a. length r = wl" "\<forall>r\<in>set b. length r = wm" "\<forall>r\<in>set c. length r = wr"
  shows "wf_plane h (wl + wm + wr) (band3 a b c)"
proof -
  have "length (band3 a b c) = h" using assms(1-3) by (simp add: band3_def)
  moreover have "length r = wl + wm + wr" if "r \<in> set (band3 a b c)" for r
  proof -
    from that obtain u v w where "r = u @ v @ w" "(u, v, w) \<in> set (zip a (zip b c))"
      by (auto simp add: band3_def)
    then have "u \<in> set a" "v \<in> set b" "w \<in> set c" by (auto dest: set_zip_leftD set_zip_rightD)
    with assms(4-6) \<open>r = u @ v @ w\<close> show ?thesis by simp
  qed
  ultimately show ?thesis by (simp add: wf_plane_def list_all_iff)
qed

lemma chunk_drop_rows:
  assumes "off + h * w \<le> length xs"
  shows "\<forall>r\<in>set (chunk h w (drop off xs)). length r = w"
proof
  fix r assume r: "r \<in> set (chunk h w (drop off xs))"
  have "h * w \<le> length (drop off xs)" using assms by simp
  then show "length r = w" using r by (rule chunk_rows)
qed

lemma wf_plane_append:
  "wf_plane h1 w p1 \<Longrightarrow> wf_plane h2 w p2 \<Longrightarrow> wf_plane (h1 + h2) w (p1 @ p2)"
  by (simp add: wf_plane_def)

lemma wf_asm_lr:
  assumes "length r = (ht + hm + hb) * (wl + wm + wr)"
  shows "wf_plane (ht + hm + hb) (wl + wm + wr) (asm_lr ht hm hb wl wm wr r)"
proof -
  have e: "length r = ht * wl + ht * wm + ht * wr + (hm * wl + hm * wm + hm * wr)
         + (hb * wl + hb * wm + hb * wr)"
    using assms by (simp add: algebra_simps)
  have c0: "\<forall>q\<in>set (chunk ht wl r). length q = wl"
    using chunk_drop_rows [of 0 ht wl r] e by simp
  have b0: "wf_plane ht (wl + wm + wr) (band3 (chunk ht wl r) (chunk ht wm (drop (ht * wl) r))
              (chunk ht wr (drop (ht * wl + ht * wm) r)))"
    by (intro band3_wf c0 chunk_drop_rows length_chunk) (simp_all add: e)
  have b1: "wf_plane hm (wl + wm + wr)
      (band3 (chunk hm wl (drop (ht * (wl + wm + wr)) r))
             (chunk hm wm (drop (ht * (wl + wm + wr) + hm * wl) r))
             (chunk hm wr (drop (ht * (wl + wm + wr) + hm * wl + hm * wm) r)))"
    by (intro band3_wf chunk_drop_rows length_chunk) (simp_all add: e algebra_simps)
  have b2: "wf_plane hb (wl + wm + wr)
      (band3 (chunk hb wl (drop (ht * (wl + wm + wr) + hm * (wl + wm + wr)) r))
             (chunk hb wm (drop (ht * (wl + wm + wr) + hm * (wl + wm + wr) + hb * wl) r))
             (chunk hb wr (drop (ht * (wl + wm + wr) + hm * (wl + wm + wr) + hb * wl + hb * wm) r)))"
    by (intro band3_wf chunk_drop_rows length_chunk) (simp_all add: e algebra_simps)
  show ?thesis
    unfolding asm_lr_def Let_def
    using wf_plane_append [OF b0 wf_plane_append [OF b1 b2]] by (simp add: add.assoc)
qed

lemma wf_asm_ud:
  assumes "length r = (ht + hm + hb) * (wl + wm + wr)"
  shows "wf_plane (ht + hm + hb) (wl + wm + wr) (asm_ud ht hm hb wl wm wr r)"
proof -
  have e: "length r = ht * wl + ht * wm + ht * wr + (hm * wl + hm * wm + hm * wr)
         + (hb * wl + hb * wm + hb * wr)"
    using assms by (simp add: algebra_simps)
  have c0: "\<forall>q\<in>set (chunk ht wl r). length q = wl"
    using chunk_drop_rows [of 0 ht wl r] e by simp
  have b0: "wf_plane ht (wl + wm + wr)
      (band3 (chunk ht wl r)
             (chunk ht wm (drop ((ht + hm + hb) * wl) r))
             (chunk ht wr (drop ((ht + hm + hb) * wl + (ht + hm + hb) * wm) r)))"
    by (intro band3_wf c0 chunk_drop_rows length_chunk) (simp_all add: e algebra_simps)
  have b1: "wf_plane hm (wl + wm + wr)
      (band3 (chunk hm wl (drop (ht * wl) r))
             (chunk hm wm (drop ((ht + hm + hb) * wl + ht * wm) r))
             (chunk hm wr (drop ((ht + hm + hb) * wl + (ht + hm + hb) * wm + ht * wr) r)))"
    by (intro band3_wf chunk_drop_rows length_chunk) (simp_all add: e algebra_simps)
  have b2: "wf_plane hb (wl + wm + wr)
      (band3 (chunk hb wl (drop (ht * wl + hm * wl) r))
             (chunk hb wm (drop ((ht + hm + hb) * wl + ht * wm + hm * wm) r))
             (chunk hb wr (drop ((ht + hm + hb) * wl + (ht + hm + hb) * wm + ht * wr + hm * wr) r)))"
    by (intro band3_wf chunk_drop_rows length_chunk) (simp_all add: e algebra_simps)
  show ?thesis
    unfolding asm_ud_def Let_def
    using wf_plane_append [OF b0 wf_plane_append [OF b1 b2]] by (simp add: add.assoc)
qed

lemma wf_rec_planes:
  assumes "length r = (2 * k) * (2 * k)"
  shows "wf_plane (2 * k) (2 * k) (rec_lr_plane k r)" and "wf_plane (2 * k) (2 * k) (rec_ud_plane k r)"
proof -
  have n: "k div 2 + k + (k - k div 2) = 2 * k" by simp
  have "length r = (k div 2 + k + (k - k div 2)) * (k div 2 + k + (k - k div 2))"
    using assms unfolding n .
  from wf_asm_lr [OF this] wf_asm_ud [OF this]
  show "wf_plane (2 * k) (2 * k) (rec_lr_plane k r)" and "wf_plane (2 * k) (2 * k) (rec_ud_plane k r)"
    unfolding rec_lr_plane_def rec_ud_plane_def n by simp_all
qed


lemma nth_map2: "i < length xs \<Longrightarrow> i < length ys \<Longrightarrow> map2 f xs ys ! i = f (xs ! i) (ys ! i)"
  by simp

lemma wf_stack_lengths:
  assumes "wf_stack x"
  shows "length (out1 x) = kC x" "length (out2 x) = kC x" "length (out3 x) = kC x"
    "length (out4 x) = kC x"
  using assms by (simp_all add: wf_stack_def)

lemma wf_stack_rows:
  assumes "wf_stack x" "c < kC x"
  shows "length (out1 x ! c) = kL x" "length (out2 x ! c) = kL x"
    "length (out3 x ! c) = kL x" "length (out4 x ! c) = kL x"
proof -
  from assms(1) have "list_all (\<lambda>r. length r = kL x) (out1 x)"
    "list_all (\<lambda>r. length r = kL x) (out2 x)" "list_all (\<lambda>r. length r = kL x) (out3 x)"
    "list_all (\<lambda>r. length r = kL x) (out4 x)"
    by (simp_all add: wf_stack_def)
  with wf_stack_lengths [OF assms(1)] assms(2)
  show "length (out1 x ! c) = kL x" "length (out2 x ! c) = kL x"
    "length (out3 x ! c) = kL x" "length (out4 x ! c) = kL x"
    by (simp_all add: list_all_length)
qed

lemma recover_window_lr_chain:
  "recover_window_lr x kern = window_chain_lr (shapes_lr kern) (segments kern) x"
  by (cases "kern mod 2 = 0")
     (simp_all add: recover_window_lr_def window_chain_lr_def shapes_lr_def segments_def Let_def)

lemma recover_window_ud_chain:
  "recover_window_ud x kern = window_chain_ud (shapes_ud kern) (segments kern) x"
  by (cases "kern mod 2 = 0")
     (simp_all add: recover_window_ud_def window_chain_ud_def shapes_ud_def segments_def Let_def)

lemma take_drop_join: "n \<le> m \<Longrightarrow> take (m - n) (drop n xs) @ drop m xs = drop n xs"
proof -
  assume "n \<le> m"
  then have "drop m xs = drop (m - n) (drop n xs)" by simp
  then show ?thesis by (simp only: append_take_drop_id)
qed

lemma nine_slices_join:
  assumes "0 \<le> b1" "b1 \<le> b2" "b2 \<le> b3" "b3 \<le> b4" "b4 \<le> b5" "b5 \<le> b6" "b6 \<le> b7" "b7 \<le> b8"
  shows "concat (map (\<lambda>s. slice s xs)
           [(None, Some b1), (Some b1, Some b2), (Some b2, Some b3), (Some b3, Some b4),
            (Some b4, Some b5), (Some b5, Some b6), (Some b6, Some b7), (Some b7, Some b8),
            (Some b8, None)]) = xs"
proof -
  have nn: "0 \<le> b2" "0 \<le> b3" "0 \<le> b4" "0 \<le> b5" "0 \<le> b6" "0 \<le> b7" "0 \<le> b8"
    using assms by linarith+
  have le: "nat b1 \<le> nat b2" "nat b2 \<le> nat b3" "nat b3 \<le> nat b4" "nat b4 \<le> nat b5"
    "nat b5 \<le> nat b6" "nat b6 \<le> nat b7" "nat b7 \<le> nat b8"
    using assms by linarith+
  have "concat (map (\<lambda>s. slice s xs)
           [(None, Some b1), (Some b1, Some b2), (Some b2, Some b3), (Some b3, Some b4),
            (Some b4, Some b5), (Some b5, Some b6), (Some b6, Some b7), (Some b7, Some b8),
            (Some b8, None)])
      = take (nat b1) xs @ take (nat b2 - nat b1) (drop (nat b1) xs)
        @ take (nat b3 - nat b2) (drop (nat b2) xs) @ take (nat b4 - nat b3) (drop (nat b3) xs)
        @ take (nat b5 - nat b4) (drop (nat b4) xs) @ take (nat b6 - nat b5) (drop (nat b5) xs)
        @ take (nat b7 - nat b6) (drop (nat b6) xs) @ take (nat b8 - nat b7) (drop (nat b7) xs)
        @ drop (nat b8) xs"
    using assms(1) nn by (simp add: slice_None_Some slice_Some_Some slice_Some_None)
  also have "\<dots> = xs"
    by (simp only: take_drop_join [OF le(7)] take_drop_join [OF le(6)] take_drop_join [OF le(5)]
        take_drop_join [OF le(4)] take_drop_join [OF le(3)] take_drop_join [OF le(2)]
        take_drop_join [OF le(1)] append_take_drop_id)
  finally show ?thesis .
qed

lemma len_slice_mid:
  "0 \<le> a \<Longrightarrow> a \<le> b \<Longrightarrow> b \<le> int (length xs) \<Longrightarrow> int (length (slice (Some a, Some b) xs)) = b - a"
  by (simp add: slice_Some_Some min_def) linarith

lemma len_slice_first:
  "0 \<le> b \<Longrightarrow> b \<le> int (length xs) \<Longrightarrow> int (length (slice (None, Some b) xs)) = b"
  by (simp add: slice_None_Some min_def) linarith

lemma len_slice_last:
  "0 \<le> a \<Longrightarrow> a \<le> int (length xs) \<Longrightarrow> int (length (slice (Some a, None) xs)) = int (length xs) - a"
  by (simp add: slice_Some_None)

lemma nine_slices_lengths:
  assumes "0 \<le> b1" "b1 \<le> b2" "b2 \<le> b3" "b3 \<le> b4" "b4 \<le> b5" "b5 \<le> b6" "b6 \<le> b7" "b7 \<le> b8"
    and "b8 \<le> int (length xs)"
  shows "map (\<lambda>s. int (length (slice s xs)))
           [(None, Some b1), (Some b1, Some b2), (Some b2, Some b3), (Some b3, Some b4),
            (Some b4, Some b5), (Some b5, Some b6), (Some b6, Some b7), (Some b7, Some b8),
            (Some b8, None)]
       = [b1, b2 - b1, b3 - b2, b4 - b3, b5 - b4, b6 - b5, b7 - b6, b8 - b7, int (length xs) - b8]"
proof -
  have nn: "0 \<le> b2" "0 \<le> b3" "0 \<le> b4" "0 \<le> b5" "0 \<le> b6" "0 \<le> b7" "0 \<le> b8"
    using assms by linarith+
  have le: "b1 \<le> int (length xs)" "b2 \<le> int (length xs)" "b3 \<le> int (length xs)"
    "b4 \<le> int (length xs)" "b5 \<le> int (length xs)" "b6 \<le> int (length xs)"
    "b7 \<le> int (length xs)"
    using assms by linarith+
  have "int (length (slice (None, Some b1) xs)) = b1"
    "int (length (slice (Some b1, Some b2) xs)) = b2 - b1"
    "int (length (slice (Some b2, Some b3) xs)) = b3 - b2"
    "int (length (slice (Some b3, Some b4) xs)) = b4 - b3"
    "int (length (slice (Some b4, Some b5) xs)) = b5 - b4"
    "int (length (slice (Some b5, Some b6) xs)) = b6 - b5"
    "int (length (slice (Some b6, Some b7) xs)) = b7 - b6"
    "int (length (slice (Some b7, Some b8) xs)) = b8 - b7"
    "int (length (slice (Some b8, None) xs)) = int (length xs) - b8"
    using assms nn le by (simp_all only: len_slice_mid len_slice_first len_slice_last)
  then show ?thesis by (simp only: list.map)
qed


lemma segments_even:
  "segments (2 * S) =
     [(None, Some (S * S)), (Some (S * S), Some (3 * (S * S))),
      (Some (3 * (S * S)), Some (4 * (S * S))), (Some (4 * (S * S)), Some (6 * (S * S))),
      (Some (6 * (S * S)), Some (10 * (S * S))), (Some (10 * (S * S)), Some (12 * (S * S))),
      (Some (12 * (S * S)), Some (13 * (S * S))), (Some (13 * (S * S)), Some (15 * (S * S))),
      (Some (15 * (S * S)), None)]"
  by (simp add: segments_def Let_def)

lemma segments_odd:
  "segments (2 * S + 1) =
     [(None, Some (S * S)), (Some (S * S), Some (3 * (S * S) + S)),
      (Some (3 * (S * S) + S), Some (4 * (S * S) + 2 * S)),
      (Some (4 * (S * S) + 2 * S), Some (6 * (S * S) + 3 * S)),
      (Some (6 * (S * S) + 3 * S), Some (10 * (S * S) + 7 * S + 1)),
      (Some (10 * (S * S) + 7 * S + 1), Some (12 * (S * S) + 10 * S + 2)),
      (Some (12 * (S * S) + 10 * S + 2), Some (13 * (S * S) + 11 * S + 2)),
      (Some (13 * (S * S) + 11 * S + 2), Some (15 * (S * S) + 14 * S + 3)),
      (Some (15 * (S * S) + 14 * S + 3), None)]"
proof -
  have d: "(2 * S + 1) div 2 = S" "(2 * S + 1) mod 2 = 0 \<longleftrightarrow> False" by simp_all
  show ?thesis
    unfolding segments_def Let_def d by (simp add: algebra_simps)
qed

lemma shapes_even:
  "shapes_lr (2 * S) = [(S, S), (S, 2 * S), (S, S), (2 * S, S), (2 * S, 2 * S), (2 * S, S),
                        (S, S), (S, 2 * S), (S, S)]"
  "shapes_ud (2 * S) = [(S, S), (2 * S, S), (S, S), (S, 2 * S), (2 * S, 2 * S), (S, 2 * S),
                        (S, S), (2 * S, S), (S, S)]"
  by (simp_all add: shapes_lr_def shapes_ud_def Let_def)

lemma shapes_odd:
  "shapes_lr (2 * S + 1) = [(S, S), (S, 2 * S + 1), (S, S + 1),
                            (2 * S + 1, S), (2 * S + 1, 2 * S + 1), (2 * S + 1, S + 1),
                            (S + 1, S), (S + 1, 2 * S + 1), (S + 1, S + 1)]"
  "shapes_ud (2 * S + 1) = [(S, S), (2 * S + 1, S), (S + 1, S),
                            (S, 2 * S + 1), (2 * S + 1, 2 * S + 1), (S + 1, 2 * S + 1),
                            (S, S + 1), (2 * S + 1, S + 1), (S + 1, S + 1)]"
proof -
  have d: "(2 * S + 1) div 2 = S" "(2 * S + 1) mod 2 = 0 \<longleftrightarrow> False" by simp_all
  show "shapes_lr (2 * S + 1) = [(S, S), (S, 2 * S + 1), (S, S + 1),
                            (2 * S + 1, S), (2 * S + 1, 2 * S + 1), (2 * S + 1, S + 1),
                            (S + 1, S), (S + 1, 2 * S + 1), (S + 1, S + 1)]"
    unfolding shapes_lr_def Let_def d by simp
  show "shapes_ud (2 * S + 1) = [(S, S), (2 * S + 1, S), (S + 1, S),
                            (S, 2 * S + 1), (2 * S + 1, 2 * S + 1), (S + 1, 2 * S + 1),
                            (S, S + 1), (2 * S + 1, S + 1), (S + 1, S + 1)]"
    unfolding shapes_ud_def Let_def d by simp
qed

lemma segments_join:
  assumes "0 \<le> kern"
  shows "concat (map (\<lambda>s. slice s xs) (segments kern)) = xs"
proof (cases "even kern")
  case True
  then obtain S where S: "kern = 2 * S" by (elim evenE)
  have A: "0 \<le> S * S" by simp
  show ?thesis
    unfolding S segments_even by (rule nine_slices_join) (use A in linarith)+
next
  case False
  then obtain S where S: "kern = 2 * S + 1" by (elim oddE)
  have S0: "0 \<le> S" using assms S by linarith
  have A: "0 \<le> S * S" by simp
  show ?thesis
    unfolding S segments_odd by (rule nine_slices_join) (use A S0 in linarith)+
qed

lemma segments_lengths:
  assumes "0 \<le> kern" "int (length xs) = (2 * kern) * (2 * kern)"
  shows "map (\<lambda>s. int (length (slice s xs))) (segments kern) = map (\<lambda>(h, w). h * w) (shapes_lr kern)"
    and "map (\<lambda>s. int (length (slice s xs))) (segments kern) = map (\<lambda>(h, w). h * w) (shapes_ud kern)"
proof -
  have "map (\<lambda>s. int (length (slice s xs))) (segments kern) = map (\<lambda>(h, w). h * w) (shapes_lr kern)
      \<and> map (\<lambda>s. int (length (slice s xs))) (segments kern) = map (\<lambda>(h, w). h * w) (shapes_ud kern)"
  proof (cases "even kern")
    case True
    then obtain S where S: "kern = 2 * S" by (elim evenE)
    have A: "0 \<le> S * S" by simp
    have L: "int (length xs) = 16 * (S * S)" using assms(2) S by simp
    have "map (\<lambda>s. int (length (slice s xs))) (segments kern)
        = [S * S, 3 * (S * S) - S * S, 4 * (S * S) - 3 * (S * S), 6 * (S * S) - 4 * (S * S),
           10 * (S * S) - 6 * (S * S), 12 * (S * S) - 10 * (S * S), 13 * (S * S) - 12 * (S * S),
           15 * (S * S) - 13 * (S * S), int (length xs) - 15 * (S * S)]"
      unfolding S segments_even by (rule nine_slices_lengths) (use A L in linarith)+
    then show ?thesis
      unfolding S shapes_even L by (simp add: algebra_simps)
  next
    case False
    then obtain S where S: "kern = 2 * S + 1" by (elim oddE)
    have S0: "0 \<le> S" using assms S by linarith
    have A: "0 \<le> S * S" by simp
    have L: "int (length xs) = 16 * (S * S) + 16 * S + 4" using assms(2) S by (simp add: algebra_simps)
    have "map (\<lambda>s. int (length (slice s xs))) (segments kern)
        = [S * S, 3 * (S * S) + S - S * S, 4 * (S * S) + 2 * S - (3 * (S * S) + S),
           6 * (S * S) + 3 * S - (4 * (S * S) + 2 * S),
           10 * (S * S) + 7 * S + 1 - (6 * (S * S) + 3 * S),
           12 * (S * S) + 10 * S + 2 - (10 * (S * S) + 7 * S + 1),
           13 * (S * S) + 11 * S + 2 - (12 * (S * S) + 10 * S + 2),
           15 * (S * S) + 14 * S + 3 - (13 * (S * S) + 11 * S + 2),
           int (length xs) - (15 * (S * S) + 14 * S + 3)]"
      unfolding S segments_odd by (rule nine_slices_lengths) (use A S0 L in linarith)+
    then show ?thesis
      unfolding S shapes_odd L by (simp add: algebra_simps)
  qed
  then show "map (\<lambda>s. int (length (slice s xs))) (segments kern) = map (\<lambda>(h, w). h * w) (shapes_lr kern)"
    and "map (\<lambda>s. int (length (slice s xs))) (segments kern) = map (\<lambda>(h, w). h * w) (shapes_ud kern)"
    by blast+
qed

lemma shapes_odd_kernel:
  assumes "odd kern"
  shows "kern div 2 < (kern + 1) div 2 \<and> kern div 2 + kern + (kern + 1) div 2 = 2 * kern
     \<and> shapes_lr kern = [(kern div 2, kern div 2), (kern div 2, kern), (kern div 2, (kern + 1) div 2),
          (kern, kern div 2), (kern, kern), (kern, (kern + 1) div 2),
          ((kern + 1) div 2, kern div 2), ((kern + 1) div 2, kern), ((kern + 1) div 2, (kern + 1) div 2)]
     \<and> shapes_ud kern = [(kern div 2, kern div 2), (kern, kern div 2), ((kern + 1) div 2, kern div 2),
          (kern div 2, kern), (kern, kern), ((kern + 1) div 2, kern),
          (kern div 2, (kern + 1) div 2), (kern, (kern + 1) div 2), ((kern + 1) div 2, (kern + 1) div 2)]"
proof -
  from assms obtain S where S: "kern = 2 * S + 1" by (elim oddE)
  have d: "(2 * S + 1) div 2 = S" "(2 * S + 1 + 1) div 2 = S + 1" by simp_all
  show ?thesis unfolding S shapes_odd d by simp
qed

lemma shapes_even_kernel:
  assumes "even kern"
  shows "kern div 2 + kern + kern div 2 = 2 * kern
     \<and> shapes_lr kern = [(kern div 2, kern div 2), (kern div 2, kern), (kern div 2, kern div 2),
          (kern, kern div 2), (kern, kern), (kern, kern div 2),
          (kern div 2, kern div 2), (kern div 2, kern), (kern div 2, kern div 2)]
     \<and> shapes_ud kern = [(kern div 2, kern div 2), (kern, kern div 2), (kern div 2, kern div 2),
          (kern div 2, kern), (kern, kern), (kern div 2, kern),
          (kern div 2, kern div 2), (kern, kern div 2), (kern div 2, kern div 2)]"
proof -
  from assms obtain S where S: "kern = 2 * S" by (elim evenE)
  have d: "2 * S div 2 = S" by simp
  show ?thesis unfolding S shapes_even d by simp
qed

lemma extents_of_double:
  assumes "1 \<le> kern"
  shows "h_center (nat (2 * kern)) kern = kern div 2"
    and "w_center (nat (2 * kern)) kern = kern div 2"
    and "int (nat (2 * kern)) - (h_center (nat (2 * kern)) kern + kern) = (kern + 1) div 2"
    and "int (nat (2 * kern)) - (w_center (nat (2 * kern)) kern + kern) = (kern + 1) div 2"
proof -
  have n: "int (nat (2 * kern)) = 2 * kern" using assms by simp
  have d: "(2 * kern - kern) div 2 = kern div 2" by simp
  have c: "2 * kern - (kern div 2 + kern) = (kern + 1) div 2" by presburger
  show "h_center (nat (2 * kern)) kern = kern div 2"
    and "w_center (nat (2 * kern)) kern = kern div 2"
    and "int (nat (2 * kern)) - (h_center (nat (2 * kern)) kern + kern) = (kern + 1) div 2"
    and "int (nat (2 * kern)) - (w_center (nat (2 * kern)) kern + kern) = (kern + 1) div 2"
    unfolding h_center_def w_center_def n d c by simp_all
qed

lemma forward_kernel_arith:
  fixes H W :: nat
  shows "int H div 2 + 2 \<le> int H \<and> int H div 2 + 2 \<le> int W \<and> 0 < int H div 2
           \<and> int (H * W) = (2 * (int H div 2)) * (2 * (int H div 2))
         \<longleftrightarrow> even H \<and> 4 \<le> H \<and> W = H"
proof (cases "even H")
  case True
  then obtain m where m: "H = 2 * m" by (elim evenE)
  have d: "int (2 * m) div 2 = int m" by simp
  have i: "2 * int m * (2 * int m) = int (2 * m * (2 * m))" by simp
  have e: "int (2 * m * W) = 2 * int m * (2 * int m) \<longleftrightarrow> 2 * m * W = 2 * m * (2 * m)"
    unfolding i by (simp only: of_nat_eq_iff)
  have c: "2 * m * W = 2 * m * (2 * m) \<longleftrightarrow> W = 2 * m" if "0 < m"
    using that by simp
  show ?thesis
  proof
    assume a: "int H div 2 + 2 \<le> int H \<and> int H div 2 + 2 \<le> int W \<and> 0 < int H div 2
           \<and> int (H * W) = (2 * (int H div 2)) * (2 * (int H div 2))"
    then have m0: "0 < m" and m2: "int m + 2 \<le> int (2 * m)" and "2 * m * W = 2 * m * (2 * m)"
      unfolding m d e by auto
    then have "W = 2 * m" using c by simp
    moreover have "4 \<le> 2 * m" using m2 by linarith
    ultimately show "even H \<and> 4 \<le> H \<and> W = H" unfolding m by simp
  next
    assume a: "even H \<and> 4 \<le> H \<and> W = H"
    then have W: "W = 2 * m" and m2: "2 \<le> m" unfolding m by simp_all
    show "int H div 2 + 2 \<le> int H \<and> int H div 2 + 2 \<le> int W \<and> 0 < int H div 2
           \<and> int (H * W) = (2 * (int H div 2)) * (2 * (int H div 2))"
      unfolding m d W using m2 by simp
  qed
next
  case False
  then obtain m where m: "H = 2 * m + 1" by (elim oddE)
  have d: "int (2 * m + 1) div 2 = int m" by simp
  have i: "2 * int m * (2 * int m) = int (2 * m * (2 * m))" by simp
  have ne: "(2 * m + 1) * W \<noteq> 2 * m * (2 * m)" if "0 < m"
  proof (cases "W < 2 * m")
    case True
    then have "W \<le> 2 * m - 1" by simp
    then have "(2 * m + 1) * W \<le> (2 * m + 1) * (2 * m - 1)" by (rule mult_le_mono2)
    also have "\<dots> < 2 * m * (2 * m)" using that by (simp add: algebra_simps diff_mult_distrib2)
    finally show ?thesis by simp
  next
    case False
    then have "2 * m \<le> W" by simp
    then have "(2 * m + 1) * (2 * m) \<le> (2 * m + 1) * W" by (rule mult_le_mono2)
    moreover have "2 * m * (2 * m) < (2 * m + 1) * (2 * m)" using that by simp
    ultimately show ?thesis by simp
  qed
  have "\<not> (int H div 2 + 2 \<le> int H \<and> int H div 2 + 2 \<le> int W \<and> 0 < int H div 2
           \<and> int (H * W) = (2 * (int H div 2)) * (2 * (int H div 2)))"
  proof
    assume a: "int H div 2 + 2 \<le> int H \<and> int H div 2 + 2 \<le> int W \<and> 0 < int H div 2
           \<and> int (H * W) = (2 * (int H div 2)) * (2 * (int H div 2))"
    then have m0: "0 < m" and "int ((2 * m + 1) * W) = int (2 * m * (2 * m))"
      unfolding m d i by simp_all
    then have "(2 * m + 1) * W = 2 * m * (2 * m)" by (simp only: of_nat_eq_iff)
    with ne [OF m0] show False by simp
  qed
  with False show ?thesis by simp
qed

lemma forward_Inr:
  fixes selective_scan :: "'a stack \<Rightarrow> 'b::plus stack"
  assumes sc: "\<And>s. kC (selective_scan s) = kC s \<and> kL (selective_scan s) = kL s"
    and r: "forward selective_scan g = Inr y"
  shows "0 < nC g \<and> even (nH g) \<and> 4 \<le> nH g \<and> nW g = nH g \<and> nH y = nH g \<and> nW y = nW g"
proof -
  define kern where "kern = int (nH g) div 2"
  have k0: "0 \<le> kern" by (simp add: kern_def)
  from r obtain s where s: "rearrange_center_blocks g kern = Inr s"
    and c: "recover_center_blocks (selective_scan s) kern = Inr y"
    by (auto simp add: forward_def forward_core_def Let_def bind_eq_Inr kern_def)
  from rearrange_Inr [OF s]
  have g: "kern + 2 \<le> int (nH g)" "kern + 2 \<le> int (nW g)" and C: "0 < nC g" by simp_all
  from s have sh: "kC s = nC g" "kL s = nH g * nW g"
    unfolding rearrange_raw [OF k0 g C] by auto
  have C': "0 < kC (selective_scan s)" using sc sh C by simp
  from recover_center_blocks_Inr [OF c C']
  have f: "0 < kL (selective_scan s)" "int (kL (selective_scan s)) = (2 * kern) * (2 * kern)"
    by simp_all
  have L: "int (nH g * nW g) = (2 * kern) * (2 * kern)" using f(2) sc sh by simp
  have "kern \<noteq> 0" using f by auto
  then have kp: "0 < kern" using k0 by simp
  have a: "even (nH g) \<and> 4 \<le> nH g \<and> nW g = nH g"
    using forward_kernel_arith [of "nH g" "nW g"] g kp L unfolding kern_def by blast
  then have "nat (2 * kern) = nH g" unfolding kern_def by (auto elim: evenE)
  moreover from c have "nH y = nat (2 * kern) \<and> nW y = nat (2 * kern)"
    unfolding recover_center_blocks_ok [OF f(1) k0 f(2)] by (auto simp add: add_grid_def)
  ultimately show ?thesis using a C by simp
qed

lemma forward_ok:
  fixes selective_scan :: "'a stack \<Rightarrow> 'b::plus stack"
  assumes sc: "\<And>s. kC (selective_scan s) = kC s \<and> kL (selective_scan s) = kL s"
    and C: "0 < nC g" and e: "even (nH g)" and h: "4 \<le> nH g" and w: "nW g = nH g"
  shows "\<exists>y. forward selective_scan g = Inr y"
proof -
  define kern where "kern = int (nH g) div 2"
  have k0: "0 \<le> kern" by (simp add: kern_def)
  from forward_kernel_arith [of "nH g" "nW g"] e h w
  have g: "kern + 2 \<le> int (nH g)" "kern + 2 \<le> int (nW g)" and kp: "0 < kern"
    and L: "int (nH g * nW g) = (2 * kern) * (2 * kern)"
    unfolding kern_def by blast+
  from rearrange_raw [OF k0 g C] obtain s where s: "rearrange_center_blocks g kern = Inr s"
    and sh: "kC s = nC g" "kL s = nH g * nW g" by simp
  have f: "int (kL (selective_scan s)) = (2 * kern) * (2 * kern)" using L sc sh by simp
  then have "int (kL (selective_scan s)) \<noteq> 0" using kp by simp
  then have p: "0 < kL (selective_scan s)" by simp
  show ?thesis
    using s recover_center_blocks_ok [OF p k0 f]
    by (simp add: forward_def forward_core_def Let_def kern_def [symmetric])
qed


lemma concat_chunk: "h * w \<le> length xs \<Longrightarrow> concat (chunk h w xs) = take (h * w) xs"
proof (induction h arbitrary: xs)
  case (Suc h)
  have "h * w \<le> length (drop w xs)" using Suc.prems by simp
  from Suc.IH [OF this] show ?case by (simp add: take_add add.commute)
qed simp

lemma band3_nth:
  assumes "length a = h" "length b = h" "length c = h" "i < h"
  shows "band3 a b c ! i = a ! i @ b ! i @ c ! i"
  using assms by (simp add: band3_def)

lemma length_band3:
  "length a = h \<Longrightarrow> length b = h \<Longrightarrow> length c = h \<Longrightarrow> length (band3 a b c) = h"
  by (simp add: band3_def)

lemma cut3_band3:
  assumes l: "length a = h" "length b = h" "length c = h"
    and wa: "\<forall>r\<in>set a. length r = wl" and wb: "\<forall>r\<in>set b. length r = wm"
  shows "map (cut3 wl wm 0) (band3 a b c) = a"
    and "map (cut3 wl wm 1) (band3 a b c) = b"
    and "map (cut3 wl wm 2) (band3 a b c) = c"
proof -
  have n: "length (band3 a b c) = h" using l by (rule length_band3)
  have la: "length (a ! i) = wl" and lb: "length (b ! i) = wm" if "i < h" for i
    using wa wb l that by simp_all
  show "map (cut3 wl wm 0) (band3 a b c) = a"
    by (rule nth_equalityI) (simp_all add: n l band3_nth [OF l] cut3_def la)
  show "map (cut3 wl wm 1) (band3 a b c) = b"
    by (rule nth_equalityI) (simp_all add: n l band3_nth [OF l] cut3_def la lb)
  show "map (cut3 wl wm 2) (band3 a b c) = c"
    by (rule nth_equalityI) (simp_all add: n l band3_nth [OF l] cut3_def la lb)
qed

lemma cut3_append3:
  assumes "length A = a" "length B = k"
  shows "cut3 a k 0 (A @ B @ C) = A" "cut3 a k 1 (A @ B @ C) = B" "cut3 a k 2 (A @ B @ C) = C"
  using assms by (simp_all add: cut3_def)

lemma flat_band3:
  assumes o: "off + h * wl + h * wm + h * wr \<le> length r"
  shows "concat (map (cut3 wl wm 0)
           (band3 (chunk h wl (drop off r)) (chunk h wm (drop (off + h * wl) r))
                  (chunk h wr (drop (off + h * wl + h * wm) r))))
       @ concat (map (cut3 wl wm 1)
           (band3 (chunk h wl (drop off r)) (chunk h wm (drop (off + h * wl) r))
                  (chunk h wr (drop (off + h * wl + h * wm) r))))
       @ concat (map (cut3 wl wm 2)
           (band3 (chunk h wl (drop off r)) (chunk h wm (drop (off + h * wl) r))
                  (chunk h wr (drop (off + h * wl + h * wm) r))))
       = take (h * wl + h * wm + h * wr) (drop off r)"
proof -
  have ra: "\<forall>q\<in>set (chunk h wl (drop off r)). length q = wl"
    by (rule chunk_drop_rows) (use o in simp)
  have rb: "\<forall>q\<in>set (chunk h wm (drop (off + h * wl) r)). length q = wm"
    by (rule chunk_drop_rows) (use o in simp)
  note c = cut3_band3 [OF length_chunk length_chunk length_chunk ra rb]
  have 0: "concat (chunk h wl (drop off r)) = take (h * wl) (drop off r)"
    by (rule concat_chunk) (use o in simp)
  have 1: "concat (chunk h wm (drop (off + h * wl) r)) = take (h * wm) (drop (h * wl) (drop off r))"
    using concat_chunk [of h wm "drop (off + h * wl) r"] o by (simp add: add.commute)
  have 2: "concat (chunk h wr (drop (off + h * wl + h * wm) r))
         = take (h * wr) (drop (h * wm) (drop (h * wl) (drop off r)))"
    using concat_chunk [of h wr "drop (off + h * wl + h * wm) r"] o by (simp add: ac_simps)
  show ?thesis
    unfolding c 0 1 2 by (simp add: take_add ac_simps)
qed

lemma flat_asm_lr:
  assumes len: "length r = (a + k + hb) * (c + k + wr)"
  shows "concat (map (\<lambda>g. concat (blk a c k (row_band g) (col_band g) (asm_lr a k hb c k wr r)))
                     lr_order) = r"
proof -
  define W where "W = c + k + wr"
  define B0 where "B0 = band3 (chunk a c (drop 0 r)) (chunk a k (drop (0 + a * c) r))
                              (chunk a wr (drop (0 + a * c + a * k) r))"
  define B1 where "B1 = band3 (chunk k c (drop (a * W) r)) (chunk k k (drop (a * W + k * c) r))
                              (chunk k wr (drop (a * W + k * c + k * k) r))"
  define B2 where "B2 = band3 (chunk hb c (drop (a * W + k * W) r))
                              (chunk hb k (drop (a * W + k * W + hb * c) r))
                              (chunk hb wr (drop (a * W + k * W + hb * c + hb * k) r))"
  have asm: "asm_lr a k hb c k wr r = B0 @ B1 @ B2"
    by (simp add: asm_lr_def Let_def B0_def B1_def B2_def W_def)
  have e: "length r = a * W + k * W + hb * W" using len by (simp add: W_def algebra_simps)
  have hW: "h * c + h * k + h * wr = h * W" for h by (simp add: W_def algebra_simps)
  have l: "length B0 = a" "length B1 = k"
    by (simp_all add: B0_def B1_def length_band3)
  note cut = cut3_append3 [OF l, of B2]
  have cut1: "cut3 a k (Suc 0) (B0 @ B1 @ B2) = B1" using cut(2) by simp
  have f0: "concat (map (cut3 c k 0) B0) @ concat (map (cut3 c k 1) B0) @ concat (map (cut3 c k 2) B0)
          = take (a * W) (drop 0 r)"
    unfolding B0_def hW [symmetric] by (rule flat_band3) (simp add: e W_def algebra_simps)
  have f1: "concat (map (cut3 c k 0) B1) @ concat (map (cut3 c k 1) B1) @ concat (map (cut3 c k 2) B1)
          = take (k * W) (drop (a * W) r)"
    unfolding B1_def hW [symmetric] by (rule flat_band3) (simp add: e W_def algebra_simps)
  have f2: "concat (map (cut3 c k 0) B2) @ concat (map (cut3 c k 1) B2) @ concat (map (cut3 c k 2) B2)
          = take (hb * W) (drop (a * W + k * W) r)"
    unfolding B2_def hW [symmetric] by (rule flat_band3) (simp add: e W_def algebra_simps)
  have "concat (map (\<lambda>g. concat (blk a c k (row_band g) (col_band g) (B0 @ B1 @ B2))) lr_order)
      = (concat (map (cut3 c k 0) B0) @ concat (map (cut3 c k 1) B0) @ concat (map (cut3 c k 2) B0))
      @ (concat (map (cut3 c k 0) B1) @ concat (map (cut3 c k 1) B1) @ concat (map (cut3 c k 2) B1))
      @ (concat (map (cut3 c k 0) B2) @ concat (map (cut3 c k 1) B2) @ concat (map (cut3 c k 2) B2))"
    by (simp add: lr_order_def row_band_def col_band_def blk_def cut cut1)
  also have "\<dots> = take (a * W) r @ take (k * W) (drop (a * W) r) @ take (hb * W) (drop (a * W + k * W) r)"
    unfolding f0 f1 f2 by simp
  also have "\<dots> = take (a * W + (k * W + hb * W)) r"
  proof -
    have "drop (k * W) (drop (a * W) r) = drop (a * W + k * W) r" by (simp add: add.commute)
    then show ?thesis by (simp only: take_add)
  qed
  also have "\<dots> = r" using e by simp
  finally show ?thesis unfolding asm .
qed

lemma flat_lr_rec_lr:
  assumes k: "2 \<le> kern" and len: "length r = (2 * nat kern) * (2 * nat kern)"
  shows "flat_lr_plane (nat (2 * kern)) (nat (2 * kern)) kern (rec_lr_plane (nat kern) r) = r"
proof -
  have k0: "0 \<le> kern" and g: "kern + 2 \<le> int (nat (2 * kern))" using k by simp_all
  have n: "nat kern div 2 + nat kern + (nat kern - nat kern div 2) = 2 * nat kern"
    by simp
  have len': "length r = (nat kern div 2 + nat kern + (nat kern - nat kern div 2))
                       * (nat kern div 2 + nat kern + (nat kern - nat kern div 2))"
    unfolding n by (rule len)
  show ?thesis
    unfolding rec_lr_plane_def flat_lr_plane_blk [OF k0 g g] centre_of_double [OF k0]
    by (rule flat_asm_lr [OF len'])
qed

lemma wf_plane_map2:
  assumes "wf_plane h w p" "wf_plane h w q"
  shows "wf_plane h w (map2 (map2 f) p q)"
proof -
  have l: "length p = h" "length q = h" using assms by (simp_all add: wf_plane_def)
  have r: "length (p ! i) = w" "length (q ! i) = w" if "i < h" for i
    using assms that l by (simp_all add: wf_plane_def list_all_length)
  have "length (map2 (map2 f) p q ! i) = w" if "i < h" for i
    using that l r [OF that] by simp
  then show ?thesis using l by (simp add: wf_plane_def list_all_length)
qed

lemma wf_recovered:
  fixes x :: "'a::plus stack"
  assumes wf: "wf_stack x" and k0: "0 \<le> kern" and L: "int (kL x) = (2 * kern) * (2 * kern)"
    and r: "recover_center_blocks x kern = Inr y"
  shows "wf_grid y"
proof -
  define K where "K = nat kern"
  have "int (kL x) = int ((2 * K) * (2 * K))" using L k0 by (simp add: K_def)
  then have LK: "kL x = (2 * K) * (2 * K)" by (simp only: of_nat_eq_iff)
  have K2: "nat (2 * kern) = 2 * K" using k0 by (simp add: K_def)
  define slr :: "'a list list" where "slr = map2 (map2 (+)) (out1 x) (map rev (out3 x))"
  define sud :: "'a list list" where "sud = map2 (map2 (+)) (out2 x) (map rev (out4 x))"
  have len: "length slr = kC x" "length sud = kC x"
    using wf_stack_lengths [OF wf] by (simp_all add: slr_def sud_def)
  have rlen: "length (slr ! c) = (2 * K) * (2 * K)" "length (sud ! c) = (2 * K) * (2 * K)"
    if c: "c < kC x" for c
    using wf_stack_rows [OF wf c] wf_stack_lengths [OF wf] c LK
    by (simp_all add: slr_def sud_def)
  show ?thesis
  proof (cases "kL x = 0")
    case True
    with r show ?thesis
      by (simp add: recover_center_blocks_def Let_def reshape_l_def)
  next
    case False
    then have Lpos: "0 < kL x" by simp
    from r have y: "y = add_grid
       \<lparr>nC = kC x, nH = nat (2 * kern), nW = nat (2 * kern),
        planes = map (rec_lr_plane (nat kern)) slr\<rparr>
       \<lparr>nC = kC x, nH = nat (2 * kern), nW = nat (2 * kern),
        planes = map (rec_ud_plane (nat kern)) sud\<rparr>"
      unfolding recover_center_blocks_ok [OF Lpos k0 L] slr_def sud_def by simp
    have p: "planes y = map2 (map2 (map2 (+))) (map (rec_lr_plane K) slr) (map (rec_ud_plane K) sud)"
      by (simp add: y add_grid_def K_def)
    have n: "length (planes y) = kC x" unfolding p using len by simp
    have "wf_plane (2 * K) (2 * K) (planes y ! c)" if c: "c < kC x" for c
    proof -
      have "planes y ! c = map2 (map2 (+)) (rec_lr_plane K (slr ! c)) (rec_ud_plane K (sud ! c))"
        unfolding p using c len by simp
      then show ?thesis
        using wf_plane_map2 [OF wf_rec_planes(1) [OF rlen(1) [OF c]] wf_rec_planes(2) [OF rlen(2) [OF c]]]
        by simp
    qed
    then show ?thesis
      using n by (simp add: wf_grid_def list_all_length y add_grid_def K2)
  qed
qed

section \<open>The claims\<close>

text \<open>
  C5. The claim: when H = W = kernel the partition is the centre block alone, and
  flattening succeeds and produces all four sequences. The first half holds. The second
  does not: top_left was never bound, and the first append to blocks_ud raises
  UnboundLocalError, whatever the grid holds.
\<close>

theorem degenerate_window_raises:
  assumes "int (nH x) = kern" and "int (nW x) = kern"
  shows "blocks_lr (nH x) (nW x) kern = [Center] \<and>
         rearrange_center_blocks x kern = Inl (UnboundLocalError ''top_left'')"
proof -
  have hc: "h_center (nH x) kern = 0" and wc: "w_center (nW x) kern = 0"
    using assms by (simp_all add: h_center_def w_center_def)
  have g: "guard (nH x) (nW x) kern r \<longleftrightarrow> r = Center" for r
    using assms by (cases r) (simp_all add: guard_def hc wc)
  have "blocks_lr (nH x) (nW x) kern = [Center]"
    by (simp add: blocks_lr_def lr_order_def g)
  moreover have "rearrange_center_blocks x kern = Inl (UnboundLocalError ''top_left'')"
    by (simp add: rearrange_center_blocks_def Let_def blocks_ud_unbound_top_left g)
  ultimately show ?thesis by simp
qed

theorem degenerate_window_raises_witness:
  "blocks_lr 2 2 2 = [Center] \<and>
   rearrange_center_blocks \<lparr>nC = 1, nH = 2, nW = 2, planes = [[[1, 2], [3, 4::int]]]\<rparr> 2
     = Inl (UnboundLocalError ''top_left'')"
  using degenerate_window_raises [of "\<lparr>nC = 1, nH = 2, nW = 2, planes = [[[1, 2], [3, 4::int]]]\<rparr>" 2]
  by simp

text \<open>
  C3. The claim: recover_window_ud transposes each region back, so that it returns the
  grid whose UD flattening it is given. It does not transpose: each segment is reshaped
  row-major to the region's (height, width). On the 4 x 4 grid 0..15 with kernel 2 the
  centre block [[5, 6], [9, 10]] comes back as [[5, 9], [6, 10]].
\<close>

theorem recover_window_ud_not_transposed:
  "bind (rearrange_center_blocks
           \<lparr>nC = 1, nH = 4, nW = 4,
            planes = [[[0, 1, 2, 3], [4, 5, 6, 7], [8, 9, 10, 11], [12, 13, 14, 15::int]]]\<rparr> 2)
        (\<lambda>s. recover_window_ud \<lparr>sC = kC s, sL = kL s, srows = out2 s\<rparr> 2)
   = Inr \<lparr>nC = 1, nH = 4, nW = 4,
          planes = [[[0, 1, 2, 3], [4, 5, 9, 7], [8, 6, 10, 11], [12, 13, 14, 15]]]\<rparr>"
  by code_simp

text \<open>
  C10. The claim: for every input of shape (B, 4, C, L), recover_center_blocks succeeds
  only when L = (2 * kernel)^2, and H = W = 2 * kernel is the configuration that
  C_SS2D.forward always uses. With C = 0 the tensor has no elements, every reshape accepts
  it, and the call returns a grid of shape (0, 4, 4) for L = 5 and kernel 2. On a 3 x 3
  input forward_core and forward use kernel = 3 // 2 = 1, so H is not 2 * kernel:
  rearrange_center_blocks returns sequences of length 9 and recover_center_blocks raises.
\<close>

theorem recover_without_channels_counterexample:
  "recover_center_blocks
     \<lparr>kC = 0, kL = 5, out1 = [], out2 = [], out3 = [], out4 = ([] :: int list list)\<rparr> 2
     = Inr \<lparr>nC = 0, nH = 4, nW = 4, planes = []\<rparr>
   \<and> int (nH \<lparr>nC = 1, nH = 3, nW = 3, planes = [[[1, 2, 3], [4, 5, 6], [7, 8, 9::int]]]\<rparr>) div 2 = 1
   \<and> forward_core (\<lambda>s. s)
        \<lparr>nC = 1, nH = 3, nW = 3, planes = [[[1, 2, 3], [4, 5, 6], [7, 8, 9::int]]]\<rparr>
     = Inr \<lparr>kC = 1, kL = 9,
            out1 = [[1, 2, 3, 4, 5, 6, 7, 8, 9]], out2 = [[1, 4, 7, 2, 5, 8, 3, 6, 9]],
            out3 = [[9, 8, 7, 6, 5, 4, 3, 2, 1]], out4 = [[9, 6, 3, 8, 5, 2, 7, 4, 1]]\<rparr>
   \<and> forward (\<lambda>s. s)
        \<lparr>nC = 1, nH = 3, nW = 3, planes = [[[1, 2, 3], [4, 5, 6], [7, 8, 9::int]]]\<rparr>
     = Inl ReshapeError"
  by code_simp

text \<open>
  C10 as amended: recover_center_blocks reads every segment length and the output shape
  off the kernel alone. For a tensor of shape (B, 4, C, L) with C >= 1 it returns exactly
  when kernel >= 1 and L = (2 * kernel)^2; what it returns has the shape
  (C, 2 * kernel, 2 * kernel), and is well formed when the input is. C_SS2D.forward passes
  kernel = H // 2 to both functions: whatever shape-preserving scan lies between them,
  the two calls return exactly when C >= 1, H is even, H >= 4 and W = H, and then
  H = W = 2 * kernel and the output has the spatial shape (H, W).
\<close>

theorem recover_only_square_of_twice_kernel:
  fixes x :: "'a::plus stack" and g :: "'b grid" and selective_scan :: "'b stack \<Rightarrow> 'a stack"
  assumes "0 < kC x"
  shows "((\<exists>y. recover_center_blocks x kern = Inr y)
            \<longleftrightarrow> 0 < kern \<and> int (kL x) = (2 * kern)\<^sup>2)
       \<and> (\<forall>y. recover_center_blocks x kern = Inr y
            \<longrightarrow> nC y = kC x \<and> nH y = nat (2 * kern) \<and> nW y = nat (2 * kern)
              \<and> (wf_stack x \<longrightarrow> wf_grid y))
       \<and> ((\<forall>s. kC (selective_scan s) = kC s \<and> kL (selective_scan s) = kL s) \<longrightarrow>
            ((\<exists>y. forward selective_scan g = Inr y)
               \<longleftrightarrow> 0 < nC g \<and> even (nH g) \<and> 4 \<le> nH g \<and> nW g = nH g)
          \<and> (\<forall>y. forward selective_scan g = Inr y
               \<longrightarrow> int (nH g) = 2 * (int (nH g) div 2) \<and> int (nW g) = 2 * (int (nH g) div 2)
                 \<and> nH y = nH g \<and> nW y = nW g))"
proof -
  have sq: "(2 * kern)\<^sup>2 = (2 * kern) * (2 * kern)" by (simp add: power2_eq_square)
  have a: "0 < kern \<and> int (kL x) = (2 * kern)\<^sup>2 \<and>
           nC y = kC x \<and> nH y = nat (2 * kern) \<and> nW y = nat (2 * kern)
           \<and> (wf_stack x \<longrightarrow> wf_grid y)"
    if r: "recover_center_blocks x kern = Inr y" for y
  proof -
    from recover_center_blocks_Inr [OF r assms]
    have f: "0 < kL x" "0 \<le> kern" "int (kL x) = (2 * kern) * (2 * kern)" by simp_all
    have "kern \<noteq> 0" using f by auto
    moreover from r have "nC y = kC x \<and> nH y = nat (2 * kern) \<and> nW y = nat (2 * kern)"
      unfolding recover_center_blocks_ok [OF f] by (auto simp add: add_grid_def)
    moreover have "wf_grid y" if "wf_stack x"
      by (rule wf_recovered [OF that f(2,3) r])
    ultimately show ?thesis using f sq by simp
  qed
  have b: "\<exists>y. recover_center_blocks x kern = Inr y"
    if "0 < kern" "int (kL x) = (2 * kern)\<^sup>2"
  proof -
    have "int (kL x) \<noteq> 0" using that by simp
    then have "0 < kL x" by simp
    then show ?thesis
      using recover_center_blocks_ok [of x kern] that sq by simp
  qed
  have c: "0 < nC g \<and> even (nH g) \<and> 4 \<le> nH g \<and> nW g = nH g
         \<and> int (nH g) = 2 * (int (nH g) div 2) \<and> int (nW g) = 2 * (int (nH g) div 2)
         \<and> nH y = nH g \<and> nW y = nW g"
    if sc: "\<forall>s. kC (selective_scan s) = kC s \<and> kL (selective_scan s) = kL s"
      and r: "forward selective_scan g = Inr y" for y
  proof -
    from sc have sc': "\<And>s. kC (selective_scan s) = kC s \<and> kL (selective_scan s) = kL s" by simp
    from forward_Inr [OF sc' r]
    have f: "0 < nC g" "even (nH g)" "4 \<le> nH g" "nW g = nH g" "nH y = nH g" "nW y = nW g"
      by simp_all
    from f(2) have "int (nH g) = 2 * (int (nH g) div 2)" by (auto elim: evenE)
    with f show ?thesis by simp
  qed
  have d: "\<exists>y. forward selective_scan g = Inr y"
    if sc: "\<forall>s. kC (selective_scan s) = kC s \<and> kL (selective_scan s) = kL s"
      and "0 < nC g" "even (nH g)" "4 \<le> nH g" "nW g = nH g"
  proof -
    from sc have sc': "\<And>s. kC (selective_scan s) = kC s \<and> kL (selective_scan s) = kL s" by simp
    from forward_ok [OF sc' that(2-5)] show ?thesis .
  qed
  have first: "((\<exists>y. recover_center_blocks x kern = Inr y)
            \<longleftrightarrow> 0 < kern \<and> int (kL x) = (2 * kern)\<^sup>2)
       \<and> (\<forall>y. recover_center_blocks x kern = Inr y
            \<longrightarrow> nC y = kC x \<and> nH y = nat (2 * kern) \<and> nW y = nat (2 * kern)
              \<and> (wf_stack x \<longrightarrow> wf_grid y))"
    using a b by blast
  have second: "(\<forall>s. kC (selective_scan s) = kC s \<and> kL (selective_scan s) = kL s) \<longrightarrow>
            ((\<exists>y. forward selective_scan g = Inr y)
               \<longleftrightarrow> 0 < nC g \<and> even (nH g) \<and> 4 \<le> nH g \<and> nW g = nH g)
          \<and> (\<forall>y. forward selective_scan g = Inr y
               \<longrightarrow> int (nH g) = 2 * (int (nH g) div 2) \<and> int (nW g) = 2 * (int (nH g) div 2)
                 \<and> nH y = nH g \<and> nW y = nW g)"
    using c d by blast
  show ?thesis
    by (intro conjI) (rule conjunct1 [OF first], rule conjunct2 [OF first], rule second)
qed

theorem recover_only_square_of_twice_kernel_witness:
  "(\<exists>y. recover_center_blocks
          \<lparr>kC = 1, kL = 16,
           out1 = [[0, 1, 2, 3, 4, 8, 5, 6, 9, 10, 7, 11, 12, 13, 14, 15]],
           out2 = [[0, 4, 8, 12, 1, 2, 5, 9, 6, 10, 13, 14, 3, 7, 11, 15]],
           out3 = [[15, 14, 13, 12, 11, 7, 10, 9, 6, 5, 8, 4, 3, 2, 1, 0]],
           out4 = [[15, 11, 7, 3, 14, 13, 10, 6, 9, 5, 2, 1, 12, 8, 4, 0::int]]\<rparr> 2 = Inr y
        \<and> nH y = 4 \<and> nW y = 4 \<and> wf_grid y)
   \<and> (\<exists>y. forward (\<lambda>s. s)
            \<lparr>nC = 1, nH = 4, nW = 4,
             planes = [[[0, 1, 2, 3], [4, 5, 6, 7], [8, 9, 10, 11], [12, 13, 14, 15::int]]]\<rparr> = Inr y
        \<and> nH y = 4 \<and> nW y = 4)"
proof -
  let ?x = "\<lparr>kC = 1, kL = 16,
           out1 = [[0, 1, 2, 3, 4, 8, 5, 6, 9, 10, 7, 11, 12, 13, 14, 15]],
           out2 = [[0, 4, 8, 12, 1, 2, 5, 9, 6, 10, 13, 14, 3, 7, 11, 15]],
           out3 = [[15, 14, 13, 12, 11, 7, 10, 9, 6, 5, 8, 4, 3, 2, 1, 0]],
           out4 = [[15, 11, 7, 3, 14, 13, 10, 6, 9, 5, 2, 1, 12, 8, 4, 0::int]]\<rparr>"
  let ?g = "\<lparr>nC = 1, nH = 4, nW = 4,
             planes = [[[0, 1, 2, 3], [4, 5, 6, 7], [8, 9, 10, 11], [12, 13, 14, 15::int]]]\<rparr>"
  have C: "0 < kC ?x" by simp
  have wf: "wf_stack ?x" by (simp add: wf_stack_def)
  have sc: "\<forall>s :: int stack. kC ((\<lambda>s. s) s) = kC s \<and> kL ((\<lambda>s. s) s) = kL s" by simp
  have L: "int (kL ?x) = (2 * 2)\<^sup>2" by simp
  have e: "0 < nC ?g \<and> even (nH ?g) \<and> 4 \<le> nH ?g \<and> nW ?g = nH ?g" by simp
  from recover_only_square_of_twice_kernel [OF C, of 2 "\<lambda>s. s" ?g] sc L e wf
  show ?thesis by auto
qed

text \<open>
  C7. The claim: the partition raises InvalidKernel exactly when kernel <= 0 or
  kernel > min(H, W), before any work, and never fails otherwise. The source has no such
  check and no such exception. With kernel = 0 it returns (the centre block is empty);
  with the valid kernel = H = W it raises UnboundLocalError.
\<close>

theorem no_invalid_kernel_counterexample:
  "rearrange_center_blocks \<lparr>nC = 1, nH = 2, nW = 2, planes = [[[1, 2], [3, 4::int]]]\<rparr> 0
     = Inr \<lparr>kC = 1, kL = 4, out1 = [[1, 2, 3, 4]], out2 = [[1, 3, 2, 4]],
            out3 = [[4, 3, 2, 1]], out4 = [[4, 2, 3, 1]]\<rparr>
   \<and> rearrange_center_blocks \<lparr>nC = 1, nH = 2, nW = 2, planes = [[[1, 2], [3, 4::int]]]\<rparr> 2
     = Inl (UnboundLocalError ''top_left'')"
  by code_simp

text \<open>
  C7 as amended: there is no kernel check. For a grid with at least one channel and any
  kernel with 0 <= kernel and kernel + 2 <= min(H, W), kernel = 0 included, the function
  raises nothing and returns four sequences of length H * W for each of the C channels.
\<close>

theorem rearrange_returns_without_kernel_check:
  assumes "0 \<le> kern" and "kern + 2 \<le> int (nH x)" and "kern + 2 \<le> int (nW x)" and "0 < nC x"
  shows "\<exists>s. rearrange_center_blocks x kern = Inr s \<and> kC s = nC x \<and> kL s = nH x * nW x"
  by (simp add: rearrange_raw [OF assms])

theorem rearrange_returns_without_kernel_check_witness:
  "\<exists>s. rearrange_center_blocks \<lparr>nC = 1, nH = 2, nW = 2, planes = [[[1, 2], [3, 4::int]]]\<rparr> 0 = Inr s
       \<and> kC s = 1 \<and> kL s = 4"
  using rearrange_returns_without_kernel_check
    [of 0 "\<lparr>nC = 1, nH = 2, nW = 2, planes = [[[1, 2], [3, 4::int]]]\<rparr>"]
  by simp

text \<open>
  C8. For a well-formed grid and a valid kernel, whenever rearrange_center_blocks returns,
  the RL sequence of every channel is the LR sequence reversed and the DU sequence the UD
  sequence reversed: position q of the one holds what position L - 1 - q of the other
  holds, channel by channel. It does return when kernel + 2 <= min(H, W) and C > 0.
\<close>

theorem reversed_sequences:
  assumes wf: "wf_grid x" and v: "1 \<le> kern" "kern \<le> int (min (nH x) (nW x))"
  shows "(\<forall>s. rearrange_center_blocks x kern = Inr s \<longrightarrow>
            out3 s = map rev (out1 s) \<and> out4 s = map rev (out2 s)
          \<and> (\<forall>c<kC s. \<forall>q<kL s. out3 s ! c ! q = out1 s ! c ! (kL s - 1 - q)
                               \<and> out4 s ! c ! q = out2 s ! c ! (kL s - 1 - q)))
       \<and> (kern + 2 \<le> int (min (nH x) (nW x)) \<and> 0 < nC x
            \<longrightarrow> (\<exists>s. rearrange_center_blocks x kern = Inr s))"
proof -
  have k: "0 \<le> kern" using v by simp
  have a: "out3 s = map rev (out1 s) \<and> out4 s = map rev (out2 s)
          \<and> (\<forall>c<kC s. \<forall>q<kL s. out3 s ! c ! q = out1 s ! c ! (kL s - 1 - q)
                               \<and> out4 s ! c ! q = out2 s ! c ! (kL s - 1 - q))"
    if r: "rearrange_center_blocks x kern = Inr s" for s
  proof -
    from rearrange_Inr [OF r]
    have g: "kern + 2 \<le> int (nH x)" "kern + 2 \<le> int (nW x)" and C: "0 < nC x" by simp_all
    have n: "length (planes x) = nC x" using wf by (simp add: wf_grid_def)
    have p: "wf_plane (nH x) (nW x) (planes x ! c)" if "c < nC x" for c
      using wf that n by (simp add: wf_grid_def list_all_length)
    from r have s: "s = \<lparr>kC = nC x, kL = nH x * nW x,
          out1 = map (flat_lr_plane (nH x) (nW x) kern) (planes x),
          out2 = map (flat_ud_plane (nH x) (nW x) kern) (planes x),
          out3 = map (\<lambda>p. rev (flat_lr_plane (nH x) (nW x) kern p)) (planes x),
          out4 = map (\<lambda>p. rev (flat_ud_plane (nH x) (nW x) kern p)) (planes x)\<rparr>"
      unfolding rearrange_ok [OF k g C wf] by simp
    have "out3 s ! c ! q = out1 s ! c ! (kL s - 1 - q) \<and> out4 s ! c ! q = out2 s ! c ! (kL s - 1 - q)"
      if c: "c < kC s" and q: "q < kL s" for c q
    proof -
      have c': "c < nC x" and q': "q < nH x * nW x" using c q s by simp_all
      have l: "length (flat_lr_plane (nH x) (nW x) kern (planes x ! c)) = nH x * nW x"
              "length (flat_ud_plane (nH x) (nW x) kern (planes x ! c)) = nH x * nW x"
        using length_flat_lr_plane [OF k g p [OF c']] length_flat_ud_plane [OF k g p [OF c']]
        by simp_all
      show ?thesis using c' q' n l by (simp add: s rev_nth)
    qed
    then show ?thesis by (simp add: s)
  qed
  have b: "\<exists>s. rearrange_center_blocks x kern = Inr s"
    if "kern + 2 \<le> int (min (nH x) (nW x))" "0 < nC x"
    using rearrange_raw [of kern x] k that by simp
  show ?thesis using a b by blast
qed

theorem reversed_sequences_witness:
  "\<exists>s. rearrange_center_blocks
          \<lparr>nC = 1, nH = 4, nW = 4,
           planes = [[[0, 1, 2, 3], [4, 5, 6, 7], [8, 9, 10, 11], [12, 13, 14, 15::int]]]\<rparr> 2
          = Inr s
      \<and> s = \<lparr>kC = 1, kL = 16,
              out1 = [[0, 1, 2, 3, 4, 8, 5, 6, 9, 10, 7, 11, 12, 13, 14, 15]],
              out2 = [[0, 4, 8, 12, 1, 2, 5, 9, 6, 10, 13, 14, 3, 7, 11, 15]],
              out3 = [[15, 14, 13, 12, 11, 7, 10, 9, 6, 5, 8, 4, 3, 2, 1, 0]],
              out4 = [[15, 11, 7, 3, 14, 13, 10, 6, 9, 5, 2, 1, 12, 8, 4, 0]]\<rparr>
      \<and> out3 s = map rev (out1 s) \<and> out4 s = map rev (out2 s)"
proof -
  let ?x = "\<lparr>nC = 1, nH = 4, nW = 4,
             planes = [[[0, 1, 2, 3], [4, 5, 6, 7], [8, 9, 10, 11], [12, 13, 14, 15::int]]]\<rparr>"
  let ?s = "\<lparr>kC = 1, kL = 16,
             out1 = [[0, 1, 2, 3, 4, 8, 5, 6, 9, 10, 7, 11, 12, 13, 14, 15]],
             out2 = [[0, 4, 8, 12, 1, 2, 5, 9, 6, 10, 13, 14, 3, 7, 11, 15]],
             out3 = [[15, 14, 13, 12, 11, 7, 10, 9, 6, 5, 8, 4, 3, 2, 1, 0]],
             out4 = [[15, 11, 7, 3, 14, 13, 10, 6, 9, 5, 2, 1, 12, 8, 4, 0::int]]\<rparr>"
  have wf: "wf_grid ?x"
    by (simp add: wf_grid_def wf_plane_def)
  have v: "(1::int) \<le> 2" "2 \<le> int (min (nH ?x) (nW ?x))"
    by simp_all
  have r: "rearrange_center_blocks ?x 2 = Inr ?s"
    by code_simp
  from reversed_sequences [OF wf v] r show ?thesis by blast
qed

text \<open>
  C9. For a well-formed grid and a valid kernel with which rearrange_center_blocks
  returns, every channel of each of the four sequences has length H * W, and reads the
  cells of that channel's plane in a fixed order that depends on (H, W, kernel) alone:
  cells_lr for LR, cells_ud for UD and their reversals for RL and DU. Both orders list
  every cell (i, j) with i < H and j < W exactly once.
\<close>

theorem flattening_is_permutation:
  assumes wf: "wf_grid x" and v: "1 \<le> kern" "kern \<le> int (min (nH x) (nW x))"
    and r: "rearrange_center_blocks x kern = Inr s"
  shows "kC s = nC x \<and> kL s = nH x * nW x
       \<and> distinct (cells_lr (nH x) (nW x) kern)
       \<and> set (cells_lr (nH x) (nW x) kern) = {..<nH x} \<times> {..<nW x}
       \<and> length (cells_lr (nH x) (nW x) kern) = nH x * nW x
       \<and> distinct (cells_ud (nH x) (nW x) kern)
       \<and> set (cells_ud (nH x) (nW x) kern) = {..<nH x} \<times> {..<nW x}
       \<and> length (cells_ud (nH x) (nW x) kern) = nH x * nW x
       \<and> out1 s = map (\<lambda>p. read_cells p (cells_lr (nH x) (nW x) kern)) (planes x)
       \<and> out2 s = map (\<lambda>p. read_cells p (cells_ud (nH x) (nW x) kern)) (planes x)
       \<and> out3 s = map (\<lambda>p. read_cells p (rev (cells_lr (nH x) (nW x) kern))) (planes x)
       \<and> out4 s = map (\<lambda>p. read_cells p (rev (cells_ud (nH x) (nW x) kern))) (planes x)"
proof -
  have k: "0 \<le> kern" using v by simp
  from rearrange_Inr [OF r]
  have g: "kern + 2 \<le> int (nH x)" "kern + 2 \<le> int (nW x)" and C: "0 < nC x" by simp_all
  have p: "wf_plane (nH x) (nW x) p" if "p \<in> set (planes x)" for p
    using wf that by (simp add: wf_grid_def list_all_iff)
  from r have s: "s = \<lparr>kC = nC x, kL = nH x * nW x,
        out1 = map (flat_lr_plane (nH x) (nW x) kern) (planes x),
        out2 = map (flat_ud_plane (nH x) (nW x) kern) (planes x),
        out3 = map (\<lambda>p. rev (flat_lr_plane (nH x) (nW x) kern p)) (planes x),
        out4 = map (\<lambda>p. rev (flat_ud_plane (nH x) (nW x) kern p)) (planes x)\<rparr>"
    unfolding rearrange_ok [OF k g C wf] by simp
  have o: "out1 s = map (\<lambda>p. read_cells p (cells_lr (nH x) (nW x) kern)) (planes x)"
          "out2 s = map (\<lambda>p. read_cells p (cells_ud (nH x) (nW x) kern)) (planes x)"
          "out3 s = map (\<lambda>p. read_cells p (rev (cells_lr (nH x) (nW x) kern))) (planes x)"
          "out4 s = map (\<lambda>p. read_cells p (rev (cells_ud (nH x) (nW x) kern))) (planes x)"
    using p by (simp_all add: s flat_lr_plane_cells flat_ud_plane_cells read_cells_rev)
  show ?thesis
    using cells_lr_perm [OF k g] cells_ud_perm [OF k g] o by (simp add: s)
qed

theorem flattening_is_permutation_witness:
  "\<exists>s. rearrange_center_blocks
          \<lparr>nC = 1, nH = 4, nW = 4,
           planes = [[[0, 1, 2, 3], [4, 5, 6, 7], [8, 9, 10, 11], [12, 13, 14, 15::int]]]\<rparr> 2
          = Inr s
      \<and> s = \<lparr>kC = 1, kL = 16,
              out1 = [[0, 1, 2, 3, 4, 8, 5, 6, 9, 10, 7, 11, 12, 13, 14, 15]],
              out2 = [[0, 4, 8, 12, 1, 2, 5, 9, 6, 10, 13, 14, 3, 7, 11, 15]],
              out3 = [[15, 14, 13, 12, 11, 7, 10, 9, 6, 5, 8, 4, 3, 2, 1, 0]],
              out4 = [[15, 11, 7, 3, 14, 13, 10, 6, 9, 5, 2, 1, 12, 8, 4, 0]]\<rparr>
      \<and> distinct (cells_lr 4 4 2) \<and> set (cells_lr 4 4 2) = {..<4} \<times> {..<4}
      \<and> distinct (cells_ud 4 4 2) \<and> set (cells_ud 4 4 2) = {..<4} \<times> {..<4}
      \<and> out1 s = map (\<lambda>p. read_cells p (cells_lr 4 4 2))
                    [[[0, 1, 2, 3], [4, 5, 6, 7], [8, 9, 10, 11], [12, 13, 14, 15]]]
      \<and> out2 s = map (\<lambda>p. read_cells p (cells_ud 4 4 2))
                    [[[0, 1, 2, 3], [4, 5, 6, 7], [8, 9, 10, 11], [12, 13, 14, 15]]]"
proof -
  let ?x = "\<lparr>nC = 1, nH = 4, nW = 4,
             planes = [[[0, 1, 2, 3], [4, 5, 6, 7], [8, 9, 10, 11], [12, 13, 14, 15::int]]]\<rparr>"
  let ?s = "\<lparr>kC = 1, kL = 16,
             out1 = [[0, 1, 2, 3, 4, 8, 5, 6, 9, 10, 7, 11, 12, 13, 14, 15]],
             out2 = [[0, 4, 8, 12, 1, 2, 5, 9, 6, 10, 13, 14, 3, 7, 11, 15]],
             out3 = [[15, 14, 13, 12, 11, 7, 10, 9, 6, 5, 8, 4, 3, 2, 1, 0]],
             out4 = [[15, 11, 7, 3, 14, 13, 10, 6, 9, 5, 2, 1, 12, 8, 4, 0::int]]\<rparr>"
  have wf: "wf_grid ?x"
    by (simp add: wf_grid_def wf_plane_def)
  have v: "(1::int) \<le> 2" "2 \<le> int (min (nH ?x) (nW ?x))"
    by simp_all
  have r: "rearrange_center_blocks ?x 2 = Inr ?s"
    by code_simp
  from flattening_is_permutation [OF wf v r] r show ?thesis by simp
qed

text \<open>
  C2. For every H, W and kernel with 1 <= kernel <= min(H, W): a region is among the
  blocks the partitioner keeps exactly when its row extent and its column extent are
  both positive, the centre block always is, two different kept regions share no cell,
  and together they hold every cell (i, j) with i < H and j < W.
\<close>

theorem partition_covers_exactly_once:
  assumes "valid_kernel H W kern"
  shows "Center \<in> set (blocks_lr H W kern)
       \<and> (\<forall>r. r \<in> set (blocks_lr H W kern) \<longleftrightarrow>
               0 < span_len H (row_span H kern r) \<and> 0 < span_len W (col_span W kern r))
       \<and> (\<forall>r\<in>set (blocks_lr H W kern). \<forall>r'\<in>set (blocks_lr H W kern).
               r \<noteq> r' \<longrightarrow> region_cells H W kern r \<inter> region_cells H W kern r' = {})
       \<and> (\<Union>r\<in>set (blocks_lr H W kern). region_cells H W kern r) = {..<H} \<times> {..<W}"
proof -
  have v: "1 \<le> kern" "kern \<le> int H" "kern \<le> int W" and k: "0 \<le> kern"
    using assms unfolding valid_kernel_def by linarith+
  define a where "a = nat (h_center H kern)"
  define c where "c = nat (w_center W kern)"
  define n where "n = nat kern"
  define RS where "RS i = set (cut3 a n i [0..<H])" for i
  define CS where "CS j = set (cut3 c n j [0..<W])" for j
  have h: "0 \<le> h_center H kern" "h_center H kern + kern \<le> int H"
    using v unfolding h_center_def by linarith+
  then have le: "a + n \<le> H" using v unfolding a_def n_def by linarith
  have w: "0 \<le> w_center W kern" "w_center W kern + kern \<le> int W"
    using v unfolding w_center_def by linarith+
  then have lew: "c + n \<le> W" using v unfolding c_def n_def by linarith
  have cells: "region_cells H W kern r = RS (row_band r) \<times> CS (col_band r)" for r
    unfolding RS_def CS_def a_def c_def n_def by (rule region_cells_bands [OF k v(2,3)])
  have g: "guard H W kern r \<longleftrightarrow> RS (row_band r) \<noteq> {} \<and> CS (col_band r) \<noteq> {}" for r
    unfolding RS_def CS_def a_def c_def n_def by (rule guard_bands [OF v])
  have ext: "0 < span_len H (row_span H kern r) \<longleftrightarrow> RS (row_band r) \<noteq> {}"
       "0 < span_len W (col_span W kern r) \<longleftrightarrow> CS (col_band r) \<noteq> {}" for r
  proof -
    have "span_len H (row_span H kern r) = length (slice (row_span H kern r) [0..<H])"
      by (simp add: length_slice)
    then show "0 < span_len H (row_span H kern r) \<longleftrightarrow> RS (row_band r) \<noteq> {}"
      unfolding RS_def a_def n_def by (simp add: row_span_cut_le [OF k v(2)])
    have "span_len W (col_span W kern r) = length (slice (col_span W kern r) [0..<W])"
      by (simp add: length_slice)
    then show "0 < span_len W (col_span W kern r) \<longleftrightarrow> CS (col_band r) \<noteq> {}"
      unfolding CS_def c_def n_def by (simp add: col_span_cut_le [OF k v(3)])
  qed
  have centre: "Center \<in> set (blocks_lr H W kern)"
    by (simp add: set_blocks_lr guard_def)
  have incl: "r \<in> set (blocks_lr H W kern) \<longleftrightarrow>
               0 < span_len H (row_span H kern r) \<and> 0 < span_len W (col_span W kern r)" for r
    by (simp add: set_blocks_lr g ext)
  have disj: "region_cells H W kern r \<inter> region_cells H W kern r' = {}" if "r \<noteq> r'" for r r'
  proof -
    from that bands_inj have "row_band r \<noteq> row_band r' \<or> col_band r \<noteq> col_band r'" by blast
    then show ?thesis
    proof
      assume "row_band r \<noteq> row_band r'"
      then have "RS (row_band r) \<inter> RS (row_band r') = {}"
        unfolding RS_def by (intro cut3_upt_disjoint [OF le]) simp_all
      then show ?thesis unfolding cells by blast
    next
      assume "col_band r \<noteq> col_band r'"
      then have "CS (col_band r) \<inter> CS (col_band r') = {}"
        unfolding CS_def by (intro cut3_upt_disjoint [OF lew]) simp_all
      then show ?thesis unfolding cells by blast
    qed
  qed
  have cover: "(\<Union>r\<in>set (blocks_lr H W kern). region_cells H W kern r) = {..<H} \<times> {..<W}"
  proof (rule set_eqI)
    fix ij :: "nat \<times> nat"
    obtain i j where ij: "ij = (i, j)" by (cases ij)
    show "ij \<in> (\<Union>r\<in>set (blocks_lr H W kern). region_cells H W kern r) \<longleftrightarrow> ij \<in> {..<H} \<times> {..<W}"
    proof
      assume "ij \<in> (\<Union>r\<in>set (blocks_lr H W kern). region_cells H W kern r)"
      then obtain r where "i \<in> RS (row_band r)" "j \<in> CS (col_band r)"
        unfolding ij cells by blast
      then show "ij \<in> {..<H} \<times> {..<W}"
        unfolding ij RS_def CS_def by (auto dest: cut3_upt_bound)
    next
      assume "ij \<in> {..<H} \<times> {..<W}"
      then have "i < H" "j < W" unfolding ij by simp_all
      from cut3_upt_cover [OF le this(1)] obtain bi where bi: "bi < 3" "i \<in> RS bi"
        unfolding RS_def by blast
      from cut3_upt_cover [OF lew \<open>j < W\<close>] obtain bj where bj: "bj < 3" "j \<in> CS bj"
        unfolding CS_def by blast
      from bands_onto [OF bi(1) bj(1)] obtain r where r: "row_band r = bi" "col_band r = bj"
        by blast
      have "guard H W kern r" unfolding g r using bi bj by blast
      moreover have "ij \<in> region_cells H W kern r" unfolding ij cells r using bi bj by simp
      ultimately show "ij \<in> (\<Union>r\<in>set (blocks_lr H W kern). region_cells H W kern r)"
        by (auto simp add: set_blocks_lr)
    qed
  qed
  show ?thesis using centre incl disj cover by blast
qed

theorem partition_covers_exactly_once_witness:
  "valid_kernel 9 9 5
   \<and> blocks_lr 9 9 5 = [TopLeft, Top, TopRight, Left, Center, Right, BottomLeft, Bottom, BottomRight]
   \<and> (\<Union>r\<in>set (blocks_lr 9 9 5). region_cells 9 9 5 r) = {..<9} \<times> {..<9}
   \<and> region_cells 9 9 5 TopLeft \<inter> region_cells 9 9 5 Center = {}"
proof -
  have v: "valid_kernel 9 9 5" by (simp add: valid_kernel_def)
  have b: "blocks_lr 9 9 5 = [TopLeft, Top, TopRight, Left, Center, Right, BottomLeft, Bottom, BottomRight]"
    by code_simp
  from partition_covers_exactly_once [OF v] v b show ?thesis by simp
qed

text \<open>
  C1. The claim: for every grid and valid kernel, recover_center_blocks applied to the
  four flattened sequences returns twice the grid. On the 4 x 4 grid 0..15 with kernel 2
  it returns neither 2 * G nor a multiple of G: the LR half gives 2 * G, the UD half
  gives the doubled UD sequence reshaped without the transposition, and the two are
  added. On a 3 x 3 grid with the valid kernel 1 the sequences have length 9 and the
  recoverer, which expects (2 * kernel)^2 = 4, raises.
\<close>

theorem round_trip_counterexample:
  "bind (rearrange_center_blocks
           \<lparr>nC = 1, nH = 4, nW = 4,
            planes = [[[0, 1, 2, 3], [4, 5, 6, 7], [8, 9, 10, 11], [12, 13, 14, 15::int]]]\<rparr> 2)
        (\<lambda>s. recover_center_blocks s 2)
     = Inr \<lparr>nC = 1, nH = 4, nW = 4,
            planes = [[[0, 4, 8, 12], [16, 20, 30, 28], [32, 30, 40, 44], [48, 52, 56, 60]]]\<rparr>
   \<and> bind (rearrange_center_blocks
           \<lparr>nC = 1, nH = 4, nW = 4,
            planes = [[[0, 1, 2, 3], [4, 5, 6, 7], [8, 9, 10, 11], [12, 13, 14, 15::int]]]\<rparr> 2)
        (\<lambda>s. recover_center_blocks s 2)
     \<noteq> Inr \<lparr>nC = 1, nH = 4, nW = 4,
            planes = [[[0, 2, 4, 6], [8, 10, 12, 14], [16, 18, 20, 22], [24, 26, 28, 30]]]\<rparr>
   \<and> bind (rearrange_center_blocks
           \<lparr>nC = 1, nH = 3, nW = 3, planes = [[[1, 2, 3], [4, 5, 6], [7, 8, 9::int]]]\<rparr> 1)
        (\<lambda>s. recover_center_blocks s 1)
     = Inl ReshapeError"
  by code_simp

text \<open>
  C1 as amended: for every well-formed grid G with at least one channel, kernel >= 2 and
  H = W = 2 * kernel, rearrange_center_blocks returns the four sequences,
  recover_window_lr returns G itself from the LR sequence, and recover_center_blocks
  returns, cell by cell, G + G plus the grid u that recover_window_ud returns from the
  UD sequence added to the reversed DU sequence.
\<close>

theorem round_trip_lr_half:
  fixes x :: "'a::plus grid"
  assumes wf: "wf_grid x" and C: "0 < nC x" and k: "2 \<le> kern"
    and H: "nH x = nat (2 * kern)" and W: "nW x = nat (2 * kern)"
  shows "\<exists>s u. rearrange_center_blocks x kern = Inr s
       \<and> recover_window_lr \<lparr>sC = kC s, sL = kL s, srows = out1 s\<rparr> kern = Inr x
       \<and> recover_window_ud (add_seqs \<lparr>sC = kC s, sL = kL s, srows = out2 s\<rparr>
                                     (flip \<lparr>sC = kC s, sL = kL s, srows = out4 s\<rparr>)) kern = Inr u
       \<and> recover_center_blocks s kern = Inr (add_grid (add_grid x x) u)"
proof -
  have k0: "0 \<le> kern" and g: "kern + 2 \<le> int (nH x)" "kern + 2 \<le> int (nW x)"
    using k H W by simp_all
  define F :: "'a list list \<Rightarrow> 'a list" where "F = flat_lr_plane (nH x) (nW x) kern"
  define U :: "'a list list \<Rightarrow> 'a list" where "U = flat_ud_plane (nH x) (nW x) kern"
  define s where "s = \<lparr>kC = nC x, kL = nH x * nW x,
        out1 = map F (planes x), out2 = map U (planes x),
        out3 = map (\<lambda>p. rev (F p)) (planes x), out4 = map (\<lambda>p. rev (U p)) (planes x)\<rparr>"
  have r: "rearrange_center_blocks x kern = Inr s"
    unfolding s_def F_def U_def by (rule rearrange_ok [OF k0 g C wf])
  have L: "int (kL s) = (2 * kern) * (2 * kern)" "0 < kL s"
    using k H W by (simp_all add: s_def)
  have L1: "int (sL \<lparr>sC = kC s, sL = kL s, srows = out1 s\<rparr>) = (2 * kern) * (2 * kern)"
    using L by simp
  have p: "wf_plane (nat (2 * kern)) (nat (2 * kern)) p" if "p \<in> set (planes x)" for p
    using wf that H W by (simp add: wf_grid_def list_all_iff)
  have inv: "rec_lr_plane (nat kern) (F p) = p" if "p \<in> set (planes x)" for p
    unfolding F_def H W by (rule rec_lr_flat_lr [OF k p [OF that]])
  have lr: "recover_window_lr \<lparr>sC = kC s, sL = kL s, srows = out1 s\<rparr> kern = Inr x"
    unfolding recover_window_lr_ok [OF k0 L1]
    using inv H W by (auto intro!: grid_eqI simp add: s_def map_idI)
  define u where "u = \<lparr>nC = kC s, nH = nat (2 * kern), nW = nat (2 * kern),
        planes = map (rec_ud_plane (nat kern)) (map2 (map2 (+)) (out2 s) (map rev (out4 s)))\<rparr>"
  have L2: "int (sL (add_seqs \<lparr>sC = kC s, sL = kL s, srows = out2 s\<rparr>
                              (flip \<lparr>sC = kC s, sL = kL s, srows = out4 s\<rparr>))) = (2 * kern) * (2 * kern)"
    using L by (simp add: add_seqs_def)
  have ud: "recover_window_ud (add_seqs \<lparr>sC = kC s, sL = kL s, srows = out2 s\<rparr>
                                     (flip \<lparr>sC = kC s, sL = kL s, srows = out4 s\<rparr>)) kern = Inr u"
    unfolding recover_window_ud_ok [OF k0 L2] by (simp add: u_def add_seqs_def flip_def)
  have dbl: "map (rec_lr_plane (nat kern)) (map2 (map2 (+)) (out1 s) (map rev (out3 s)))
           = map (map (map (\<lambda>v. v + v))) (planes x)"
  proof -
    have "map2 (map2 (+)) (out1 s) (map rev (out3 s)) = map (\<lambda>p. map (\<lambda>v. v + v) (F p)) (planes x)"
      by (simp add: s_def o_def map2_maps map2_same del: zip_map_map)
    then show ?thesis
      using inv by (simp add: rec_lr_plane_map)
  qed
  have xx: "add_grid x x = \<lparr>nC = kC s, nH = nat (2 * kern), nW = nat (2 * kern),
                planes = map (map (map (\<lambda>v. v + v))) (planes x)\<rparr>"
    using H W by (simp add: add_grid_def s_def map2_same)
  have "recover_center_blocks s kern = Inr (add_grid (add_grid x x) u)"
    unfolding recover_center_blocks_ok [OF L(2) k0 L(1)] dbl xx u_def ..
  with r lr ud show ?thesis by blast
qed

theorem round_trip_lr_half_witness:
  "\<exists>s u. rearrange_center_blocks
           \<lparr>nC = 1, nH = 4, nW = 4,
            planes = [[[0, 1, 2, 3], [4, 5, 6, 7], [8, 9, 10, 11], [12, 13, 14, 15::int]]]\<rparr> 2 = Inr s
       \<and> recover_window_lr \<lparr>sC = kC s, sL = kL s, srows = out1 s\<rparr> 2
           = Inr \<lparr>nC = 1, nH = 4, nW = 4,
            planes = [[[0, 1, 2, 3], [4, 5, 6, 7], [8, 9, 10, 11], [12, 13, 14, 15::int]]]\<rparr>
       \<and> recover_center_blocks s 2
           = Inr (add_grid \<lparr>nC = 1, nH = 4, nW = 4,
            planes = [[[0, 2, 4, 6], [8, 10, 12, 14], [16, 18, 20, 22], [24, 26, 28, 30::int]]]\<rparr> u)"
proof -
  have wf: "wf_grid \<lparr>nC = 1, nH = 4, nW = 4,
            planes = [[[0, 1, 2, 3], [4, 5, 6, 7], [8, 9, 10, 11], [12, 13, 14, 15::int]]]\<rparr>"
    by (simp add: wf_grid_def wf_plane_def)
  have a: "add_grid \<lparr>nC = 1, nH = 4, nW = 4,
            planes = [[[0, 1, 2, 3], [4, 5, 6, 7], [8, 9, 10, 11], [12, 13, 14, 15::int]]]\<rparr>
           \<lparr>nC = 1, nH = 4, nW = 4,
            planes = [[[0, 1, 2, 3], [4, 5, 6, 7], [8, 9, 10, 11], [12, 13, 14, 15::int]]]\<rparr>
         = \<lparr>nC = 1, nH = 4, nW = 4,
            planes = [[[0, 2, 4, 6], [8, 10, 12, 14], [16, 18, 20, 22], [24, 26, 28, 30::int]]]\<rparr>"
    by (simp add: add_grid_def)
  from round_trip_lr_half [OF wf, of 2] show ?thesis
    unfolding a by (simp, blast)
qed

text \<open>
  C4. The claim: for every four sequences of equal length and valid kernel the recoverer
  forms s_lr and s_ud, inverts the LR flattening on s_lr and the UD flattening on s_ud,
  and returns the sum of the two grids. For sequences of length 9 and the valid kernel 1
  (a 3 x 3 grid) it returns nothing: the last segment has 6 elements where a 1 x 1 block
  is expected, and the reshape raises. For sequences of length 16 and kernel 2, with
  lr_out, rl_out and du_out zero and ud_out the UD sequence of the 4 x 4 grid 0..15, s_ud
  is that UD sequence and the result is not the grid: the UD half is reshaped without the
  transposition, and the centre [[5, 6], [9, 10]] comes back as [[5, 9], [6, 10]].
\<close>

theorem recoverer_needs_matching_length_counterexample:
  "recover_center_blocks
     \<lparr>kC = 1, kL = 9,
      out1 = [[1, 2, 3, 4, 5, 6, 7, 8, 9]], out2 = [[1, 4, 7, 2, 5, 8, 3, 6, 9]],
      out3 = [[9, 8, 7, 6, 5, 4, 3, 2, 1]], out4 = [[9, 6, 3, 8, 5, 2, 7, 4, 1::int]]\<rparr> 1
   = Inl ReshapeError
   \<and> bind (rearrange_center_blocks
            \<lparr>nC = 1, nH = 4, nW = 4,
             planes = [[[0, 1, 2, 3], [4, 5, 6, 7], [8, 9, 10, 11], [12, 13, 14, 15::int]]]\<rparr> 2)
          (\<lambda>s. Inr (out2 s))
   = Inr [[0, 4, 8, 12, 1, 2, 5, 9, 6, 10, 13, 14, 3, 7, 11, 15]]
   \<and> recover_center_blocks
     \<lparr>kC = 1, kL = 16,
      out1 = [[0, 0, 0, 0, 0, 0, 0, 0, 0, 0, 0, 0, 0, 0, 0, 0]],
      out2 = [[0, 4, 8, 12, 1, 2, 5, 9, 6, 10, 13, 14, 3, 7, 11, 15]],
      out3 = [[0, 0, 0, 0, 0, 0, 0, 0, 0, 0, 0, 0, 0, 0, 0, 0]],
      out4 = [[0, 0, 0, 0, 0, 0, 0, 0, 0, 0, 0, 0, 0, 0, 0, 0::int]]\<rparr> 2
   = Inr \<lparr>nC = 1, nH = 4, nW = 4,
          planes = [[[0, 1, 2, 3], [4, 5, 9, 7], [8, 6, 10, 11], [12, 13, 14, 15]]]\<rparr>"
  by code_simp

text \<open>
  C4 as amended: for every well-formed tensor of four sequences of length
  L = (2 * kernel)^2 with kernel >= 1, both recover_window functions and
  recover_center_blocks return. s_lr holds at position q the sum of lr_out at q and
  rl_out at L - 1 - q, and s_ud likewise for ud_out and du_out. The LR flattening is
  inverted on s_lr: the grid y1 that recover_window_lr returns from s_lr is well formed,
  of shape (C, 2 * kernel, 2 * kernel); rearrange_center_blocks, which returns for
  kernel >= 2 and C >= 1, gives s_lr back as the LR sequence of y1; and y1 is the only
  well-formed grid of that shape whose LR sequence is s_lr. recover_window_ud is applied
  to s_ud. The result has the shape (C, 2 * kernel, 2 * kernel) and each of its cells is
  the sum of the two recovered grids' cells.
\<close>

theorem recoverer_sums_both_axes:
  fixes x :: "'a::plus stack"
  assumes wf: "wf_stack x" and k: "1 \<le> kern" and L: "int (kL x) = (2 * kern)\<^sup>2"
  shows "\<exists>y1 y2 y.
      recover_window_lr (add_seqs \<lparr>sC = kC x, sL = kL x, srows = out1 x\<rparr>
                                  (flip \<lparr>sC = kC x, sL = kL x, srows = out3 x\<rparr>)) kern = Inr y1
    \<and> recover_window_ud (add_seqs \<lparr>sC = kC x, sL = kL x, srows = out2 x\<rparr>
                                  (flip \<lparr>sC = kC x, sL = kL x, srows = out4 x\<rparr>)) kern = Inr y2
    \<and> recover_center_blocks x kern = Inr y
    \<and> nC y = kC x \<and> nH y = nat (2 * kern) \<and> nW y = nat (2 * kern)
    \<and> (\<forall>c<kC x. \<forall>q<kL x.
          srows (add_seqs \<lparr>sC = kC x, sL = kL x, srows = out1 x\<rparr>
                          (flip \<lparr>sC = kC x, sL = kL x, srows = out3 x\<rparr>)) ! c ! q
            = out1 x ! c ! q + out3 x ! c ! (kL x - 1 - q)
        \<and> srows (add_seqs \<lparr>sC = kC x, sL = kL x, srows = out2 x\<rparr>
                          (flip \<lparr>sC = kC x, sL = kL x, srows = out4 x\<rparr>)) ! c ! q
            = out2 x ! c ! q + out4 x ! c ! (kL x - 1 - q))
    \<and> (\<forall>c<kC x. \<forall>i<nat (2 * kern). \<forall>j<nat (2 * kern).
          planes y ! c ! i ! j = planes y1 ! c ! i ! j + planes y2 ! c ! i ! j)
    \<and> wf_grid y1 \<and> nC y1 = kC x \<and> nH y1 = nat (2 * kern) \<and> nW y1 = nat (2 * kern)
    \<and> (2 \<le> kern \<and> 0 < kC x \<longrightarrow>
          (\<exists>s. rearrange_center_blocks y1 kern = Inr s
             \<and> out1 s = srows (add_seqs \<lparr>sC = kC x, sL = kL x, srows = out1 x\<rparr>
                                       (flip \<lparr>sC = kC x, sL = kL x, srows = out3 x\<rparr>))))
    \<and> (\<forall>g s. wf_grid g \<and> nH g = nat (2 * kern) \<and> nW g = nat (2 * kern)
             \<and> rearrange_center_blocks g kern = Inr s
             \<and> out1 s = srows (add_seqs \<lparr>sC = kC x, sL = kL x, srows = out1 x\<rparr>
                                       (flip \<lparr>sC = kC x, sL = kL x, srows = out3 x\<rparr>))
           \<longrightarrow> y1 = g)"
proof -
  define K where "K = nat kern"
  have k0: "0 \<le> kern" using k by simp
  have Lm: "int (kL x) = (2 * kern) * (2 * kern)" using L by (simp add: power2_eq_square)
  have "int (kL x) = int ((2 * K) * (2 * K))" using Lm k0 by (simp add: K_def)
  then have LK: "kL x = (2 * K) * (2 * K)" by (simp only: of_nat_eq_iff)
  have K2: "nat (2 * kern) = 2 * K" using k0 by (simp add: K_def)
  have Lpos: "0 < kL x" using LK k by (simp add: K_def)
  define slr :: "'a list list" where "slr = map2 (map2 (+)) (out1 x) (map rev (out3 x))"
  define sud :: "'a list list" where "sud = map2 (map2 (+)) (out2 x) (map rev (out4 x))"
  define y1 :: "'a grid" where "y1 = \<lparr>nC = kC x, nH = nat (2 * kern), nW = nat (2 * kern),
        planes = map (rec_lr_plane (nat kern)) slr\<rparr>"
  define y2 :: "'a grid" where "y2 = \<lparr>nC = kC x, nH = nat (2 * kern), nW = nat (2 * kern),
        planes = map (rec_ud_plane (nat kern)) sud\<rparr>"
  have r1: "recover_window_lr (add_seqs \<lparr>sC = kC x, sL = kL x, srows = out1 x\<rparr>
                                  (flip \<lparr>sC = kC x, sL = kL x, srows = out3 x\<rparr>)) kern = Inr y1"
    using recover_window_lr_ok [OF k0, of "add_seqs \<lparr>sC = kC x, sL = kL x, srows = out1 x\<rparr>
                                  (flip \<lparr>sC = kC x, sL = kL x, srows = out3 x\<rparr>)"] Lm
    by (simp add: add_seqs_def flip_def y1_def slr_def)
  have r2: "recover_window_ud (add_seqs \<lparr>sC = kC x, sL = kL x, srows = out2 x\<rparr>
                                  (flip \<lparr>sC = kC x, sL = kL x, srows = out4 x\<rparr>)) kern = Inr y2"
    using recover_window_ud_ok [OF k0, of "add_seqs \<lparr>sC = kC x, sL = kL x, srows = out2 x\<rparr>
                                  (flip \<lparr>sC = kC x, sL = kL x, srows = out4 x\<rparr>)"] Lm
    by (simp add: add_seqs_def flip_def y2_def sud_def)
  have r: "recover_center_blocks x kern = Inr (add_grid y1 y2)"
    unfolding recover_center_blocks_ok [OF Lpos k0 Lm] y1_def y2_def slr_def sud_def ..
  have len: "length slr = kC x" "length sud = kC x"
    using wf_stack_lengths [OF wf] by (simp_all add: slr_def sud_def)
  have rows: "slr ! c ! q = out1 x ! c ! q + out3 x ! c ! (kL x - 1 - q)
            \<and> sud ! c ! q = out2 x ! c ! q + out4 x ! c ! (kL x - 1 - q)"
       and rlen: "length (slr ! c) = kL x" "length (sud ! c) = kL x"
    if c: "c < kC x" and q: "q < kL x" for c q
    using wf_stack_rows [OF wf c] wf_stack_lengths [OF wf] c q
    by (simp_all add: slr_def sud_def rev_nth)
  have rlen': "length (slr ! c) = (2 * K) * (2 * K)" "length (sud ! c) = (2 * K) * (2 * K)"
    if c: "c < kC x" for c
    using rlen [OF c Lpos] LK by simp_all
  have cells: "planes (add_grid y1 y2) ! c ! i ! j = planes y1 ! c ! i ! j + planes y2 ! c ! i ! j"
    if c: "c < kC x" and i: "i < nat (2 * kern)" and j: "j < nat (2 * kern)" for c i j
  proof -
    have p1: "planes y1 ! c = rec_lr_plane K (slr ! c)" and p2: "planes y2 ! c = rec_ud_plane K (sud ! c)"
      using c len by (simp_all add: y1_def y2_def K_def)
    have w1: "wf_plane (2 * K) (2 * K) (planes y1 ! c)" and w2: "wf_plane (2 * K) (2 * K) (planes y2 ! c)"
      unfolding p1 p2 using wf_rec_planes [OF rlen'(1) [OF c]] wf_rec_planes [OF rlen'(2) [OF c]]
      by simp_all
    have l1: "length (planes y1 ! c) = 2 * K" "length (planes y2 ! c) = 2 * K"
      using w1 w2 by (simp_all add: wf_plane_def)
    have i': "i < 2 * K" and j': "j < 2 * K" using i j K2 by simp_all
    have "planes y1 ! c ! i \<in> set (planes y1 ! c)" "planes y2 ! c ! i \<in> set (planes y2 ! c)"
      using l1 i' by simp_all
    then have l2: "length (planes y1 ! c ! i) = 2 * K" "length (planes y2 ! c ! i) = 2 * K"
      using wf_plane_rows [OF w1] wf_plane_rows [OF w2] by simp_all
    have n: "length (planes y1) = kC x" "length (planes y2) = kC x"
      using len by (simp_all add: y1_def y2_def)
    have "planes (add_grid y1 y2) ! c = map2 (map2 (+)) (planes y1 ! c) (planes y2 ! c)"
      unfolding add_grid_def using n c by (simp del: zip_map_map)
    also have "\<dots> ! i = map2 (+) (planes y1 ! c ! i) (planes y2 ! c ! i)"
      using l1 i' by simp
    also have "\<dots> ! j = planes y1 ! c ! i ! j + planes y2 ! c ! i ! j"
      using l2 j' by simp
    finally show ?thesis .
  qed
  have shape: "nC (add_grid y1 y2) = kC x" "nH (add_grid y1 y2) = nat (2 * kern)"
    "nW (add_grid y1 y2) = nat (2 * kern)"
    by (simp_all add: add_grid_def y1_def)
  have srows: "srows (add_seqs \<lparr>sC = kC x, sL = kL x, srows = out1 x\<rparr>
                          (flip \<lparr>sC = kC x, sL = kL x, srows = out3 x\<rparr>)) = slr"
       "srows (add_seqs \<lparr>sC = kC x, sL = kL x, srows = out2 x\<rparr>
                          (flip \<lparr>sC = kC x, sL = kL x, srows = out4 x\<rparr>)) = sud"
    by (simp_all add: add_seqs_def flip_def slr_def sud_def)
  have slr_rows: "length q = (2 * K) * (2 * K)" if "q \<in> set slr" for q
  proof -
    from that obtain c where "c < length slr" "q = slr ! c" by (auto simp add: in_set_conv_nth)
    then show ?thesis using rlen' (1) [of c] len by simp
  qed
  have wf1: "wf_grid y1"
    unfolding wf_grid_def y1_def
    using len(1) wf_rec_planes(1) [OF slr_rows] by (simp add: list_all_iff K2 K_def)
  have shape1: "nC y1 = kC x" "nH y1 = nat (2 * kern)" "nW y1 = nat (2 * kern)"
    by (simp_all add: y1_def)
  have inv: "\<exists>s. rearrange_center_blocks y1 kern = Inr s \<and> out1 s = slr"
    if k2: "2 \<le> kern" and C: "0 < kC x"
  proof -
    have g: "kern + 2 \<le> int (nH y1)" "kern + 2 \<le> int (nW y1)" and C1: "0 < nC y1"
      using k2 C by (simp_all add: shape1)
    have "flat_lr_plane (nat (2 * kern)) (nat (2 * kern)) kern (rec_lr_plane (nat kern) q) = q"
      if "q \<in> set slr" for q
      by (rule flat_lr_rec_lr [OF k2]) (use slr_rows [OF that] in \<open>simp add: K_def\<close>)
    then have "map (flat_lr_plane (nat (2 * kern)) (nat (2 * kern)) kern)
                   (map (rec_lr_plane (nat kern)) slr) = slr"
      by (simp add: map_idI)
    then show ?thesis
      unfolding rearrange_ok [OF k0 g C1 wf1] by (simp add: y1_def)
  qed
  have uniq: "y1 = g"
    if wfg: "wf_grid g" and Hg: "nH g = nat (2 * kern)" and Wg: "nW g = nat (2 * kern)"
      and rg: "rearrange_center_blocks g kern = Inr s" and o: "out1 s = slr" for g s
  proof -
    from rearrange_Inr [OF rg]
    have g: "kern + 2 \<le> int (nH g)" "kern + 2 \<le> int (nW g)" and Cg: "0 < nC g" by simp_all
    have k2: "2 \<le> kern" using g(1) Hg k0 by simp
    from rg o have e: "slr = map (flat_lr_plane (nat (2 * kern)) (nat (2 * kern)) kern) (planes g)"
      unfolding rearrange_ok [OF k0 g Cg wfg] Hg Wg by auto
    have p: "wf_plane (nat (2 * kern)) (nat (2 * kern)) p" if "p \<in> set (planes g)" for p
      using wfg that Hg Wg by (simp add: wf_grid_def list_all_iff)
    have "map (rec_lr_plane (nat kern)) slr = planes g"
      unfolding e using rec_lr_flat_lr [OF k2 p] by (simp add: map_idI)
    moreover have "nC g = kC x"
      using wfg len(1) e by (simp add: wf_grid_def)
    ultimately show ?thesis
      using Hg Wg by (intro grid_eqI) (simp_all add: y1_def)
  qed
  show ?thesis
    unfolding srows
    by (intro exI [of _ y1] exI [of _ y2] exI [of _ "add_grid y1 y2"] conjI)
       (use r1 r2 r shape rows cells wf1 shape1 inv uniq in blast)+
qed

theorem recoverer_sums_both_axes_witness:
  "\<exists>y1 y2 y s.
      recover_window_lr \<lparr>sC = 1, sL = 16, srows = [[11, 22, 33, 44, 55, 66, 77, 88, 99, 110, 121, 132, 143, 154, 165, 176::int]]\<rparr> 2 = Inr y1
    \<and> recover_window_ud \<lparr>sC = 1, sL = 16, srows = [[0, 0, 0, 0, 0, 0, 0, 0, 3, 3, 3, 3, 3, 3, 3, 3::int]]\<rparr> 2 = Inr y2
    \<and> recover_center_blocks
        \<lparr>kC = 1, kL = 16,
          out1 = [[1, 2, 3, 4, 5, 6, 7, 8, 9, 10, 11, 12, 13, 14, 15, 16]],
          out2 = [[0, 0, 0, 0, 0, 0, 0, 0, 1, 1, 1, 1, 1, 1, 1, 1]],
          out3 = [[160, 150, 140, 130, 120, 110, 100, 90, 80, 70, 60, 50, 40, 30, 20, 10]],
          out4 = [[2, 2, 2, 2, 2, 2, 2, 2, 0, 0, 0, 0, 0, 0, 0, 0::int]]\<rparr> 2 = Inr y
    \<and> nH y = 4 \<and> nW y = 4
    \<and> planes y ! 0 ! 1 ! 2 = planes y1 ! 0 ! 1 ! 2 + planes y2 ! 0 ! 1 ! 2
    \<and> rearrange_center_blocks y1 2 = Inr s
    \<and> out1 s = [[11, 22, 33, 44, 55, 66, 77, 88, 99, 110, 121, 132, 143, 154, 165, 176::int]]"
proof -
  let ?x = "\<lparr>kC = 1, kL = 16,
          out1 = [[1, 2, 3, 4, 5, 6, 7, 8, 9, 10, 11, 12, 13, 14, 15, 16]],
          out2 = [[0, 0, 0, 0, 0, 0, 0, 0, 1, 1, 1, 1, 1, 1, 1, 1]],
          out3 = [[160, 150, 140, 130, 120, 110, 100, 90, 80, 70, 60, 50, 40, 30, 20, 10]],
          out4 = [[2, 2, 2, 2, 2, 2, 2, 2, 0, 0, 0, 0, 0, 0, 0, 0::int]]\<rparr>"
  have wf: "wf_stack ?x"
    by (simp add: wf_stack_def)
  have k: "(1::int) \<le> 2" by simp
  have L: "int (kL ?x) = (2 * 2)\<^sup>2"
    by simp
  from recoverer_sums_both_axes [OF wf k L]
  obtain y1 y2 y where
    "recover_window_lr \<lparr>sC = 1, sL = 16, srows = [[11, 22, 33, 44, 55, 66, 77, 88, 99, 110, 121, 132, 143, 154, 165, 176::int]]\<rparr> 2 = Inr y1"
    "recover_window_ud \<lparr>sC = 1, sL = 16, srows = [[0, 0, 0, 0, 0, 0, 0, 0, 3, 3, 3, 3, 3, 3, 3, 3::int]]\<rparr> 2 = Inr y2"
    "recover_center_blocks ?x 2 = Inr y"
    "nH y = 4" "nW y = 4"
    "\<forall>i<4. \<forall>j<4. planes y ! 0 ! i ! j = planes y1 ! 0 ! i ! j + planes y2 ! 0 ! i ! j"
    "\<exists>s. rearrange_center_blocks y1 2 = Inr s \<and> out1 s = [[11, 22, 33, 44, 55, 66, 77, 88, 99, 110, 121, 132, 143, 154, 165, 176::int]]"
    by (simp add: add_seqs_def flip_def) blast
  then show ?thesis by (intro exI [of _ y1] exI [of _ y2] exI [of _ y]) simp
qed

text \<open>
  C6. The claim: for every odd kernel the extents on the two sides of the centre are
  kernel div 2 and (kernel + 1) div 2, and under both parities the segments of the
  recoverer cover the sequence region by region; the test named for it is H = W = 9 with
  kernel 5 and kernel 4. On the 9 x 9 grid rearrange_center_blocks leaves 2 rows above
  and 2 rows below the centre for the odd kernel 5, and 2 above and 3 below for the even
  kernel 4. Both calls return sequences of length 81, which the recoverers cut at bounds
  computed from the kernel alone: with kernel 5 the last two segments have 5 and 0
  elements where the regions have 15 and 9, with kernel 4 the last one has 21 where the
  region has 4, and both recover_window functions raise under both kernels.
\<close>

theorem nine_by_nine_counterexample:
  "h_center 9 5 = 2 \<and> 9 - (h_center 9 5 + 5) = 2
   \<and> h_center 9 4 = 2 \<and> 9 - (h_center 9 4 + 4) = 3
   \<and> bind (rearrange_center_blocks
        \<lparr>nC = 1, nH = 9, nW = 9,
        planes = [[[0, 1, 2, 3, 4, 5, 6, 7, 8],
                   [9, 10, 11, 12, 13, 14, 15, 16, 17],
                   [18, 19, 20, 21, 22, 23, 24, 25, 26],
                   [27, 28, 29, 30, 31, 32, 33, 34, 35],
                   [36, 37, 38, 39, 40, 41, 42, 43, 44],
                   [45, 46, 47, 48, 49, 50, 51, 52, 53],
                   [54, 55, 56, 57, 58, 59, 60, 61, 62],
                   [63, 64, 65, 66, 67, 68, 69, 70, 71],
                   [72, 73, 74, 75, 76, 77, 78, 79, 80::int]]]\<rparr> 5)
      (\<lambda>s. Inr (kC s, kL s)) = Inr (1, 81)
   \<and> bind (rearrange_center_blocks
        \<lparr>nC = 1, nH = 9, nW = 9,
        planes = [[[0, 1, 2, 3, 4, 5, 6, 7, 8],
                   [9, 10, 11, 12, 13, 14, 15, 16, 17],
                   [18, 19, 20, 21, 22, 23, 24, 25, 26],
                   [27, 28, 29, 30, 31, 32, 33, 34, 35],
                   [36, 37, 38, 39, 40, 41, 42, 43, 44],
                   [45, 46, 47, 48, 49, 50, 51, 52, 53],
                   [54, 55, 56, 57, 58, 59, 60, 61, 62],
                   [63, 64, 65, 66, 67, 68, 69, 70, 71],
                   [72, 73, 74, 75, 76, 77, 78, 79, 80::int]]]\<rparr> 5)
      (\<lambda>s. recover_window_lr \<lparr>sC = kC s, sL = kL s, srows = out1 s\<rparr> 5) = Inl ReshapeError
   \<and> bind (rearrange_center_blocks
        \<lparr>nC = 1, nH = 9, nW = 9,
        planes = [[[0, 1, 2, 3, 4, 5, 6, 7, 8],
                   [9, 10, 11, 12, 13, 14, 15, 16, 17],
                   [18, 19, 20, 21, 22, 23, 24, 25, 26],
                   [27, 28, 29, 30, 31, 32, 33, 34, 35],
                   [36, 37, 38, 39, 40, 41, 42, 43, 44],
                   [45, 46, 47, 48, 49, 50, 51, 52, 53],
                   [54, 55, 56, 57, 58, 59, 60, 61, 62],
                   [63, 64, 65, 66, 67, 68, 69, 70, 71],
                   [72, 73, 74, 75, 76, 77, 78, 79, 80::int]]]\<rparr> 5)
      (\<lambda>s. recover_window_ud \<lparr>sC = kC s, sL = kL s, srows = out2 s\<rparr> 5) = Inl ReshapeError
   \<and> bind (rearrange_center_blocks
        \<lparr>nC = 1, nH = 9, nW = 9,
        planes = [[[0, 1, 2, 3, 4, 5, 6, 7, 8],
                   [9, 10, 11, 12, 13, 14, 15, 16, 17],
                   [18, 19, 20, 21, 22, 23, 24, 25, 26],
                   [27, 28, 29, 30, 31, 32, 33, 34, 35],
                   [36, 37, 38, 39, 40, 41, 42, 43, 44],
                   [45, 46, 47, 48, 49, 50, 51, 52, 53],
                   [54, 55, 56, 57, 58, 59, 60, 61, 62],
                   [63, 64, 65, 66, 67, 68, 69, 70, 71],
                   [72, 73, 74, 75, 76, 77, 78, 79, 80::int]]]\<rparr> 4)
      (\<lambda>s. Inr (kC s, kL s)) = Inr (1, 81)
   \<and> bind (rearrange_center_blocks
        \<lparr>nC = 1, nH = 9, nW = 9,
        planes = [[[0, 1, 2, 3, 4, 5, 6, 7, 8],
                   [9, 10, 11, 12, 13, 14, 15, 16, 17],
                   [18, 19, 20, 21, 22, 23, 24, 25, 26],
                   [27, 28, 29, 30, 31, 32, 33, 34, 35],
                   [36, 37, 38, 39, 40, 41, 42, 43, 44],
                   [45, 46, 47, 48, 49, 50, 51, 52, 53],
                   [54, 55, 56, 57, 58, 59, 60, 61, 62],
                   [63, 64, 65, 66, 67, 68, 69, 70, 71],
                   [72, 73, 74, 75, 76, 77, 78, 79, 80::int]]]\<rparr> 4)
      (\<lambda>s. recover_window_lr \<lparr>sC = kC s, sL = kL s, srows = out1 s\<rparr> 4) = Inl ReshapeError
   \<and> bind (rearrange_center_blocks
        \<lparr>nC = 1, nH = 9, nW = 9,
        planes = [[[0, 1, 2, 3, 4, 5, 6, 7, 8],
                   [9, 10, 11, 12, 13, 14, 15, 16, 17],
                   [18, 19, 20, 21, 22, 23, 24, 25, 26],
                   [27, 28, 29, 30, 31, 32, 33, 34, 35],
                   [36, 37, 38, 39, 40, 41, 42, 43, 44],
                   [45, 46, 47, 48, 49, 50, 51, 52, 53],
                   [54, 55, 56, 57, 58, 59, 60, 61, 62],
                   [63, 64, 65, 66, 67, 68, 69, 70, 71],
                   [72, 73, 74, 75, 76, 77, 78, 79, 80::int]]]\<rparr> 4)
      (\<lambda>s. recover_window_ud \<lparr>sC = kC s, sL = kL s, srows = out2 s\<rparr> 4) = Inl ReshapeError
   \<and> map (\<lambda>s. length (slice s [0..<81])) (segments 5) = [4, 10, 6, 10, 25, 15, 6, 5, 0]
   \<and> map (\<lambda>(h, w). h * w) (shapes_lr 5) = [4, 10, 6, 10, 25, 15, 6, 15, 9]
   \<and> map (\<lambda>s. length (slice s [0..<81])) (segments 4) = [4, 8, 4, 8, 16, 8, 4, 8, 21]
   \<and> map (\<lambda>(h, w). h * w) (shapes_lr 4) = [4, 8, 4, 8, 16, 8, 4, 8, 4]"
  by code_simp

text \<open>
  C6 as amended: both recover_window functions test the parity of the kernel and cut the
  sequence into the nine slices of \<open>segments\<close>, reshaped to the shapes of \<open>shapes_lr\<close> and
  \<open>shapes_ud\<close>. For every kernel >= 1: the nine slices, one after the other, are the
  whole sequence, whatever its length; for an odd kernel the bands beside the centre have
  the extents kernel div 2 and (kernel + 1) div 2, which differ, and for an even kernel
  kernel div 2 on both sides; in both cases the three extents add up to 2 * kernel, and
  they are the extents with which rearrange_center_blocks cuts a 2 * kernel by 2 * kernel
  input: kernel div 2 in front of the centre and (kernel + 1) div 2 behind it. For a
  sequence of length L = (2 * kernel)^2 the length of each slice is the height times the
  width it is reshaped to, and both recover_window functions return a grid of shape
  (C, 2 * kernel, 2 * kernel).
\<close>

theorem segments_partition_for_both_parities:
  assumes "1 \<le> kern"
  shows "recover_window_lr x kern = window_chain_lr (shapes_lr kern) (segments kern) x
       \<and> recover_window_ud x kern = window_chain_ud (shapes_ud kern) (segments kern) x
       \<and> concat (map (\<lambda>s. slice s xs) (segments kern)) = xs
       \<and> h_center (nat (2 * kern)) kern = kern div 2
       \<and> w_center (nat (2 * kern)) kern = kern div 2
       \<and> int (nat (2 * kern)) - (h_center (nat (2 * kern)) kern + kern) = (kern + 1) div 2
       \<and> int (nat (2 * kern)) - (w_center (nat (2 * kern)) kern + kern) = (kern + 1) div 2
       \<and> (int (length xs) = (2 * kern)\<^sup>2 \<longrightarrow>
            map (\<lambda>s. int (length (slice s xs))) (segments kern)
              = map (\<lambda>(h, w). h * w) (shapes_lr kern)
          \<and> map (\<lambda>s. int (length (slice s xs))) (segments kern)
              = map (\<lambda>(h, w). h * w) (shapes_ud kern))
       \<and> (int (sL x) = (2 * kern)\<^sup>2 \<longrightarrow>
            (\<exists>y. recover_window_lr x kern = Inr y
                 \<and> nC y = sC x \<and> nH y = nat (2 * kern) \<and> nW y = nat (2 * kern))
          \<and> (\<exists>y. recover_window_ud x kern = Inr y
                 \<and> nC y = sC x \<and> nH y = nat (2 * kern) \<and> nW y = nat (2 * kern)))
       \<and> (odd kern \<longrightarrow>
            kern div 2 < (kern + 1) div 2 \<and> kern div 2 + kern + (kern + 1) div 2 = 2 * kern
          \<and> shapes_lr kern =
              [(kern div 2, kern div 2), (kern div 2, kern), (kern div 2, (kern + 1) div 2),
               (kern, kern div 2), (kern, kern), (kern, (kern + 1) div 2),
               ((kern + 1) div 2, kern div 2), ((kern + 1) div 2, kern),
               ((kern + 1) div 2, (kern + 1) div 2)]
          \<and> shapes_ud kern =
              [(kern div 2, kern div 2), (kern, kern div 2), ((kern + 1) div 2, kern div 2),
               (kern div 2, kern), (kern, kern), ((kern + 1) div 2, kern),
               (kern div 2, (kern + 1) div 2), (kern, (kern + 1) div 2),
               ((kern + 1) div 2, (kern + 1) div 2)])
       \<and> (even kern \<longrightarrow>
            kern div 2 + kern + kern div 2 = 2 * kern
          \<and> shapes_lr kern =
              [(kern div 2, kern div 2), (kern div 2, kern), (kern div 2, kern div 2),
               (kern, kern div 2), (kern, kern), (kern, kern div 2),
               (kern div 2, kern div 2), (kern div 2, kern), (kern div 2, kern div 2)]
          \<and> shapes_ud kern =
              [(kern div 2, kern div 2), (kern, kern div 2), (kern div 2, kern div 2),
               (kern div 2, kern), (kern, kern), (kern div 2, kern),
               (kern div 2, kern div 2), (kern, kern div 2), (kern div 2, kern div 2)])"
proof -
  have k0: "0 \<le> kern" using assms by simp
  have sq: "(2 * kern)\<^sup>2 = (2 * kern) * (2 * kern)" by (simp add: power2_eq_square)
  have ret: "(\<exists>y. recover_window_lr x kern = Inr y
                 \<and> nC y = sC x \<and> nH y = nat (2 * kern) \<and> nW y = nat (2 * kern))
          \<and> (\<exists>y. recover_window_ud x kern = Inr y
                 \<and> nC y = sC x \<and> nH y = nat (2 * kern) \<and> nW y = nat (2 * kern))"
    if "int (sL x) = (2 * kern) * (2 * kern)"
    unfolding recover_window_lr_ok [OF k0 that] recover_window_ud_ok [OF k0 that] by simp
  show ?thesis
    unfolding sq
    using recover_window_lr_chain [of x kern] recover_window_ud_chain [of x kern]
      segments_join [OF k0, of xs] segments_lengths [OF k0, of xs] ret
      shapes_odd_kernel [of kern] shapes_even_kernel [of kern] extents_of_double [OF assms]
    by blast
qed

theorem segments_partition_for_both_parities_witness:
  "concat (map (\<lambda>s. slice s [0..<100]) (segments 5)) = [0..<100]
   \<and> map (\<lambda>s. int (length (slice s [0..<100]))) (segments 5) = [4, 10, 6, 10, 25, 15, 6, 15, 9]
   \<and> shapes_lr 5 = [(2, 2), (2, 5), (2, 3), (5, 2), (5, 5), (5, 3), (3, 2), (3, 5), (3, 3)]
   \<and> (\<exists>y. recover_window_lr \<lparr>sC = 1, sL = 100, srows = [[0..<100]]\<rparr> 5 = Inr y
          \<and> nH y = 10 \<and> nW y = 10)
   \<and> concat (map (\<lambda>s. slice s [0..<64]) (segments 4)) = [0..<64]
   \<and> map (\<lambda>s. int (length (slice s [0..<64]))) (segments 4) = [4, 8, 4, 8, 16, 8, 4, 8, 4]
   \<and> shapes_lr 4 = [(2, 2), (2, 4), (2, 2), (4, 2), (4, 4), (4, 2), (2, 2), (2, 4), (2, 2)]
   \<and> (\<exists>y. recover_window_ud \<lparr>sC = 1, sL = 64, srows = [[0..<64]]\<rparr> 4 = Inr y
          \<and> nH y = 8 \<and> nW y = 8)"
proof -
  have k: "(1::int) \<le> 5" "(1::int) \<le> 4" by simp_all
  have l: "int (length [0..<100]) = (2 * 5)\<^sup>2" "int (length [0..<64]) = (2 * 4)\<^sup>2" by simp_all
  let ?x = "\<lparr>sC = 1, sL = 100, srows = [[0..<100]]\<rparr>"
  let ?z = "\<lparr>sC = 1, sL = 64, srows = [[0..<64]]\<rparr>"
  have m: "int (sL ?x) = (2 * 5)\<^sup>2" "int (sL ?z) = (2 * 4)\<^sup>2" by simp_all
  from segments_partition_for_both_parities [OF k(1), of ?x "[0..<100]", THEN conjunct2, THEN conjunct2]
    l(1) m(1)
  have a: "concat (map (\<lambda>s. slice s [0..<100]) (segments 5)) = [0..<100]"
    and b: "map (\<lambda>s. int (length (slice s [0..<100]))) (segments 5)
              = map (\<lambda>(h, w). h * w) (shapes_lr 5)"
    and c: "shapes_lr 5 = [(2, 2), (2, 5), (2, 3), (5, 2), (5, 5), (5, 3), (3, 2), (3, 5), (3, 3)]"
    and r: "\<exists>y. recover_window_lr ?x 5 = Inr y \<and> nH y = 10 \<and> nW y = 10"
    by auto
  from segments_partition_for_both_parities [OF k(2), of ?z "[0..<64]", THEN conjunct2, THEN conjunct2]
    l(2) m(2)
  have d: "concat (map (\<lambda>s. slice s [0..<64]) (segments 4)) = [0..<64]"
    and e: "map (\<lambda>s. int (length (slice s [0..<64]))) (segments 4)
              = map (\<lambda>(h, w). h * w) (shapes_lr 4)"
    and f: "shapes_lr 4 = [(2, 2), (2, 4), (2, 2), (4, 2), (4, 4), (4, 2), (2, 2), (2, 4), (2, 2)]"
    and t: "\<exists>y. recover_window_ud ?z 4 = Inr y \<and> nH y = 8 \<and> nW y = 8"
    by auto
  show ?thesis
    unfolding a b d e unfolding c f using r t by simp
qed

end
